theory Spec2Isabelle
  imports Complex_Main "HOL-Library.Multiset"
begin

section \<open>Values of the JavaScript program\<close>

text \<open>
  The program in \<^verbatim>\<open>src/app.js\<close> works on JSON documents. A number is an IEEE double;
  the program only parses, stores and compares numbers, so a finite one is modelled by the
  rational it denotes, next to the three special values.
\<close>

datatype jsnum = NaN | PInf | NInf | Fin rat

text \<open>
  The value of a record's field: a JSON primitive, or \<open>JUndefined\<close> for a field the
  object does not have. Arrays and objects as field values are outside the model.
\<close>

datatype jsval = JUndefined | JNull | JBool bool | JNum jsnum | JStr string

text \<open>
  A raw record is a JSON object: its table of properties. Each of the four data files is
  an array of such objects; a document of another shape is outside the model.
\<close>

type_synonym entry = "(string \<times> jsval) list"

text \<open>The exceptions the code can raise.\<close>

datatype exn = TypeError | RangeError

text \<open>Property access \<^verbatim>\<open>d.k\<close>: \<^verbatim>\<open>undefined\<close> when the object has no such property.\<close>

definition get_prop :: "entry \<Rightarrow> string \<Rightarrow> jsval" where
  "get_prop d k = (case map_of d k of None \<Rightarrow> JUndefined | Some v \<Rightarrow> v)"

text \<open>ToBoolean.\<close>

fun truthy :: "jsval \<Rightarrow> bool" where
  "truthy JUndefined = False"
| "truthy JNull = False"
| "truthy (JBool b) = b"
| "truthy (JNum n) = (n \<noteq> NaN \<and> n \<noteq> Fin 0)"
| "truthy (JStr s) = (s \<noteq> [])"

text \<open>The operator \<^verbatim>\<open>a || b\<close>.\<close>

definition or_js :: "jsval \<Rightarrow> jsval \<Rightarrow> jsval" where
  "or_js a b = (if truthy a then a else b)"

text \<open>
  The functions of the JavaScript platform that the program calls and whose results depend
  on the engine, the locale or the time zone are parameters of the model.
\<close>

record platform =
  toLowerCase :: "string \<Rightarrow> string"
  parseFloatStr :: "string \<Rightarrow> jsnum"
  dateParse :: "string \<Rightarrow> int option"
  localeCompare :: "string \<Rightarrow> string \<Rightarrow> int"
  numberToString :: "jsnum \<Rightarrow> string"
  toISOString :: "int \<Rightarrow> string"
  localTime :: "int \<Rightarrow> int"
  utcTime :: "int \<Rightarrow> int"

text \<open>
  \<^verbatim>\<open>parseFloat(v)\<close> converts its argument to a string and reads the longest numeric
  prefix. A number prints as a string that reads back as the same number; the strings of
  \<^verbatim>\<open>undefined\<close>, \<^verbatim>\<open>null\<close>, \<^verbatim>\<open>true\<close> and \<^verbatim>\<open>false\<close> have no numeric prefix.
\<close>

fun parseFloat :: "platform \<Rightarrow> jsval \<Rightarrow> jsnum" where
  "parseFloat P (JStr s) = parseFloatStr P s"
| "parseFloat P (JNum n) = n"
| "parseFloat P v = NaN"

text \<open>
  \<^verbatim>\<open>new Date(v)\<close>: the time value in milliseconds, \<open>None\<close> for an Invalid Date.
  A string is parsed; any other primitive is converted to a number and clipped to the
  range of time values.
\<close>

definition timeClip :: "jsnum \<Rightarrow> int option" where
  "timeClip n = (case n of
       Fin q \<Rightarrow> if \<bar>q\<bar> \<le> 8640000000000000
                then Some (if 0 \<le> q then \<lfloor>q\<rfloor> else - \<lfloor>- q\<rfloor>) else None
     | _ \<Rightarrow> None)"

fun newDate :: "platform \<Rightarrow> jsval \<Rightarrow> int option" where
  "newDate P (JStr s) = dateParse P s"
| "newDate P (JNum n) = timeClip n"
| "newDate P (JBool b) = Some (if b then 1 else 0)"
| "newDate P JNull = Some 0"
| "newDate P JUndefined = None"

section \<open>The manager's state\<close>

record partitions =
  labs :: "entry list"
  vitals :: "entry list"
  activity :: "entry list"
  sleep :: "entry list"

datatype source = Labs | Vitals | Activity | Sleep

record descriptor =
  name :: string
  label :: jsval
  unit :: jsval
  source :: source

record manager =
  data :: partitions
  metrics :: "descriptor list"
  currentMetric :: string
  currentTimeRange :: string

text \<open>The constructor of \<^verbatim>\<open>HealthDataManager\<close>.\<close>

definition new_manager :: manager where
  "new_manager =
     \<lparr>data = \<lparr>labs = [], vitals = [], activity = [], sleep = []\<rparr>,
      metrics = [], currentMetric = ''RestingHeartRate'', currentTimeRange = ''1M''\<rparr>"

text \<open>\<^verbatim>\<open>Object.values(this.data)\<close>, each dataset with the partition it is.\<close>

definition data_values :: "partitions \<Rightarrow> (source \<times> entry list) list" where
  "data_values ds =
     [(Labs, labs ds), (Vitals, vitals ds), (Activity, activity ds), (Sleep, sleep ds)]"

section \<open>Arrays: filter and sort\<close>

text \<open>\<^verbatim>\<open>Array.prototype.filter\<close> with a callback that may raise.\<close>

fun filterE :: "('a \<Rightarrow> exn + bool) \<Rightarrow> 'a list \<Rightarrow> exn + 'a list" where
  "filterE p [] = Inr []"
| "filterE p (d # ds) =
     (case p d of
        Inl e \<Rightarrow> Inl e
      | Inr b \<Rightarrow> (case filterE p ds of
                    Inl e \<Rightarrow> Inl e
                  | Inr r \<Rightarrow> Inr (if b then d # r else r)))"

text \<open>
  \<^verbatim>\<open>Array.prototype.sort(comparefn)\<close>. The comparator is given as \<open>gt a b\<close>, which
  tells whether \<^verbatim>\<open>comparefn(a, b)\<close> is a number greater than zero (a \<^verbatim>\<open>NaN\<close> result
  counts as zero), or raises. ECMAScript fixes the result when the comparator never raises
  and is a consistent ordering of the elements: the stable sorted list. It leaves to the
  engine which pairs are compared and in which argument order, and so the order of the
  result under an inconsistent comparator and whether a comparator that raises on some
  pairs is called on one of them. The model is a stable insertion sort that compares an
  element with the elements after it, the earlier one as first argument: it is the sort of
  every engine where ECMAScript fixes the result, and one admissible sort elsewhere.
\<close>

fun insert_js :: "('a \<Rightarrow> 'a \<Rightarrow> exn + bool) \<Rightarrow> 'a \<Rightarrow> 'a list \<Rightarrow> exn + 'a list" where
  "insert_js gt a [] = Inr [a]"
| "insert_js gt a (b # bs) =
     (case gt a b of
        Inl e \<Rightarrow> Inl e
      | Inr g \<Rightarrow> if g then (case insert_js gt a bs of
                              Inl e \<Rightarrow> Inl e
                            | Inr r \<Rightarrow> Inr (b # r))
                else Inr (a # b # bs))"

fun sort_js :: "('a \<Rightarrow> 'a \<Rightarrow> exn + bool) \<Rightarrow> 'a list \<Rightarrow> exn + 'a list" where
  "sort_js gt [] = Inr []"
| "sort_js gt (a # as) =
     (case sort_js gt as of
        Inl e \<Rightarrow> Inl e
      | Inr r \<Rightarrow> insert_js gt a r)"

text \<open>\<^verbatim>\<open>Map.prototype.set\<close>: an existing key keeps its place, a new key goes last.\<close>

fun map_set :: "'k \<Rightarrow> 'v \<Rightarrow> ('k \<times> 'v) list \<Rightarrow> ('k \<times> 'v) list" where
  "map_set k v [] = [(k, v)]"
| "map_set k v ((k', v') # m) =
     (if k' = k then (k, v) # m else (k', v') # map_set k v m)"

section \<open>getMetricData\<close>

datatype point = Point (px: "int option") (py: jsnum)

text \<open>
  The callback of the filter over each dataset:
  \<^verbatim>\<open>const m = d.metric || d.Metric; return m && m.toLowerCase() === metricName.toLowerCase();\<close>
  A truthy \<^verbatim>\<open>m\<close> that is not a string has no method \<^verbatim>\<open>toLowerCase\<close>.
\<close>

definition metric_matches :: "platform \<Rightarrow> string \<Rightarrow> entry \<Rightarrow> exn + bool" where
  "metric_matches P metricName d =
     (let m = or_js (get_prop d ''metric'') (get_prop d ''Metric'')
      in if \<not> truthy m then Inr False
         else (case m of
                 JStr s \<Rightarrow> Inr (toLowerCase P s = toLowerCase P metricName)
               | _ \<Rightarrow> Inl TypeError))"

text \<open>The loop over \<^verbatim>\<open>Object.values(this.data)\<close> that concatenates the filtered datasets.\<close>

fun collect_entries :: "(entry \<Rightarrow> exn + bool) \<Rightarrow> entry list list \<Rightarrow> exn + entry list" where
  "collect_entries p [] = Inr []"
| "collect_entries p (dataset # rest) =
     (case filterE p dataset of
        Inl e \<Rightarrow> Inl e
      | Inr filtered \<Rightarrow> (case collect_entries p rest of
                           Inl e \<Rightarrow> Inl e
                         | Inr r \<Rightarrow> Inr (filtered @ r)))"

text \<open>The body of the loop that fills the map \<^verbatim>\<open>uniqueByTime\<close>.\<close>

definition timeStr_of :: "entry \<Rightarrow> jsval" where
  "timeStr_of d = or_js (get_prop d ''timestamp'') (get_prop d ''Timestamp'')"

definition val_of :: "entry \<Rightarrow> jsval" where
  "val_of d = or_js (get_prop d ''value'') (get_prop d ''Value'')"

definition set_by_time :: "platform \<Rightarrow> (jsval \<times> jsnum) list \<Rightarrow> entry \<Rightarrow> (jsval \<times> jsnum) list" where
  "set_by_time P m d =
     (let timeStr = timeStr_of d; val = val_of d
      in if truthy timeStr \<and> val \<noteq> JUndefined
         then map_set timeStr (parseFloat P val) m else m)"

definition uniqueByTime :: "platform \<Rightarrow> entry list \<Rightarrow> (jsval \<times> jsnum) list" where
  "uniqueByTime P allEntries = foldl (set_by_time P) [] allEntries"

text \<open>The comparator \<^verbatim>\<open>(a, b) => a.x - b.x\<close>: the difference is \<^verbatim>\<open>NaN\<close> when a date is invalid.\<close>

definition x_gt :: "point \<Rightarrow> point \<Rightarrow> bool" where
  "x_gt a b = (case (px a, px b) of (Some s, Some t) \<Rightarrow> s > t | _ \<Rightarrow> False)"

definition to_point :: "platform \<Rightarrow> jsval \<times> jsnum \<Rightarrow> point" where
  "to_point P e = Point (newDate P (fst e)) (snd e)"

definition getMetricData :: "platform \<Rightarrow> partitions \<Rightarrow> string \<Rightarrow> exn + point list" where
  "getMetricData P ds metricName =
     (case collect_entries (metric_matches P metricName) (map snd (data_values ds)) of
        Inl e \<Rightarrow> Inl e
      | Inr allEntries \<Rightarrow>
          sort_js (\<lambda>a b. Inr (x_gt a b))
            (filter (\<lambda>d. py d \<noteq> NaN) (map (to_point P) (uniqueByTime P allEntries))))"

section \<open>indexMetrics\<close>

text \<open>A \<^verbatim>\<open>forEach\<close> whose body updates a state and may raise.\<close>

fun foldE :: "('s \<Rightarrow> 'a \<Rightarrow> exn + 's) \<Rightarrow> 's \<Rightarrow> 'a list \<Rightarrow> exn + 's" where
  "foldE f s [] = Inr s"
| "foldE f s (a # as) = (case f s a of Inl e \<Rightarrow> Inl e | Inr s' \<Rightarrow> foldE f s' as)"

text \<open>
  The body of the inner loop. The state is the set \<^verbatim>\<open>uniqueMetrics\<close> and the map
  \<^verbatim>\<open>metricMap\<close>, both in insertion order. \<^verbatim>\<open>(rawMetric || '').toLowerCase()\<close> raises
  when \<^verbatim>\<open>rawMetric\<close> is truthy and not a string.
\<close>

definition index_entry ::
  "platform \<Rightarrow> source \<Rightarrow> string list \<times> (string \<times> descriptor) list \<Rightarrow> entry
     \<Rightarrow> exn + string list \<times> (string \<times> descriptor) list" where
  "index_entry P src st entry =
     (let rawMetric = or_js (get_prop entry ''metric'') (get_prop entry ''Metric'')
      in case or_js rawMetric (JStr []) of
           JStr s \<Rightarrow>
             (let mKey = toLowerCase P s
              in if mKey \<noteq> [] \<and> mKey \<notin> set (fst st)
                 then Inr (fst st @ [mKey],
                           map_set mKey
                             \<lparr>name = mKey,
                              label = or_js (or_js (get_prop entry ''source_display'')
                                                   (get_prop entry ''OriginalName'')) rawMetric,
                              unit = or_js (or_js (get_prop entry ''unit'') (get_prop entry ''Unit''))
                                           (JStr []),
                              source = src\<rparr>
                             (snd st))
                 else Inr st)
         | _ \<Rightarrow> Inl TypeError)"

definition index_dataset ::
  "platform \<Rightarrow> string list \<times> (string \<times> descriptor) list \<Rightarrow> source \<times> entry list
     \<Rightarrow> exn + string list \<times> (string \<times> descriptor) list" where
  "index_dataset P st sd = foldE (index_entry P (fst sd)) st (snd sd)"

text \<open>ToString of a primitive, for the argument of \<^verbatim>\<open>localeCompare\<close>.\<close>

fun toString :: "platform \<Rightarrow> jsval \<Rightarrow> string" where
  "toString P JUndefined = ''undefined''"
| "toString P JNull = ''null''"
| "toString P (JBool b) = (if b then ''true'' else ''false'')"
| "toString P (JNum n) = numberToString P n"
| "toString P (JStr s) = s"

text \<open>
  The comparator \<^verbatim>\<open>(a, b) => a.label.localeCompare(b.label)\<close>: only a string has
  the method.
\<close>

definition label_gt :: "platform \<Rightarrow> descriptor \<Rightarrow> descriptor \<Rightarrow> exn + bool" where
  "label_gt P a b =
     (case label a of
        JStr s \<Rightarrow> Inr (localeCompare P s (toString P (label b)) > 0)
      | _ \<Rightarrow> Inl TypeError)"

definition build_index :: "platform \<Rightarrow> partitions \<Rightarrow> exn + descriptor list" where
  "build_index P ds =
     (case foldE (index_dataset P) ([], []) (data_values ds) of
        Inl e \<Rightarrow> Inl e
      | Inr st \<Rightarrow> sort_js (label_gt P) (map snd (snd st)))"

definition indexMetrics :: "platform \<Rightarrow> manager \<Rightarrow> exn + manager" where
  "indexMetrics P mgr =
     (case build_index P (data mgr) of
        Inl e \<Rightarrow> Inl e
      | Inr ms \<Rightarrow> Inr (mgr\<lparr>metrics := ms\<rparr>))"

section \<open>getLatestValue\<close>

record latest_value =
  lv_timestamp :: string
  lv_value :: jsnum
  lv_metric :: string
  lv_unit :: jsval

text \<open>
  \<^verbatim>\<open>this.metrics.find(m => m.name.toLowerCase() === metricName.toLowerCase())?.unit || ''\<close>
\<close>

definition lookup_unit :: "platform \<Rightarrow> descriptor list \<Rightarrow> string \<Rightarrow> jsval" where
  "lookup_unit P ms metricName =
     or_js (case find (\<lambda>m. toLowerCase P (name m) = toLowerCase P metricName) ms of
              None \<Rightarrow> JUndefined
            | Some m \<Rightarrow> unit m)
           (JStr [])"

text \<open>
  The result is \<open>None\<close> for \<^verbatim>\<open>null\<close>. \<^verbatim>\<open>toISOString\<close> raises a RangeError on an
  Invalid Date, and it is the first property of the object literal to be evaluated.
\<close>

definition getLatestValue :: "platform \<Rightarrow> manager \<Rightarrow> string \<Rightarrow> exn + latest_value option" where
  "getLatestValue P mgr metricName =
     (case getMetricData P (data mgr) metricName of
        Inl e \<Rightarrow> Inl e
      | Inr dat \<Rightarrow>
          if length dat = 0 then Inr None
          else (let latest = dat ! (length dat - 1)
                in case px latest of
                     None \<Rightarrow> Inl RangeError
                   | Some t \<Rightarrow>
                       Inr (Some \<lparr>lv_timestamp = toISOString P t,
                                  lv_value = py latest,
                                  lv_metric = metricName,
                                  lv_unit = lookup_unit P (metrics mgr) metricName\<rparr>)))"

section \<open>init\<close>

text \<open>
  The outcome of \<^verbatim>\<open>await fetch(path)\<close> followed by \<^verbatim>\<open>await response.json()\<close> for one
  file: the parsed array of records, or \<open>None\<close> when either promise rejects.
\<close>

type_synonym fetcher = "source \<Rightarrow> entry list option"

definition assign_partition :: "source \<Rightarrow> entry list \<Rightarrow> partitions \<Rightarrow> partitions" where
  "assign_partition k doc ds =
     (case k of
        Labs \<Rightarrow> ds\<lparr>labs := doc\<rparr>
      | Vitals \<Rightarrow> ds\<lparr>vitals := doc\<rparr>
      | Activity \<Rightarrow> ds\<lparr>activity := doc\<rparr>
      | Sleep \<Rightarrow> ds\<lparr>sleep := doc\<rparr>)"

text \<open>
  The loop over \<^verbatim>\<open>Object.entries(paths)\<close>: each file is assigned to
  \<^verbatim>\<open>this.data[key]\<close> as soon as it is parsed. The result is the data as the loop leaves
  it and whether the loop ran to its end.
\<close>

fun load_files :: "fetcher \<Rightarrow> source list \<Rightarrow> partitions \<Rightarrow> partitions \<times> bool" where
  "load_files fetch [] ds = (ds, True)"
| "load_files fetch (k # ks) ds =
     (case fetch k of
        None \<Rightarrow> (ds, False)
      | Some doc \<Rightarrow> load_files fetch ks (assign_partition k doc ds))"

text \<open>The returned boolean and the manager as \<^verbatim>\<open>init\<close> leaves it.\<close>

definition init :: "platform \<Rightarrow> fetcher \<Rightarrow> manager \<Rightarrow> bool \<times> manager" where
  "init P fetch mgr =
     (case load_files fetch [Labs, Vitals, Activity, Sleep] (data mgr) of
        (ds, loaded) \<Rightarrow>
          if loaded
          then (case indexMetrics P (mgr\<lparr>data := ds\<rparr>) of
                  Inl e \<Rightarrow> (False, mgr\<lparr>data := ds\<rparr>)
                | Inr mgr' \<Rightarrow> (True, mgr'))
          else (False, mgr\<lparr>data := ds\<rparr>))"

section \<open>Dates and the time-range filter of updateChart\<close>

text \<open>
  The abstract operations of ECMAScript on time values (milliseconds since the epoch),
  on the proleptic Gregorian calendar. Months count from 0.
\<close>

definition msPerDay :: int where
  "msPerDay = 86400000"

definition Day :: "int \<Rightarrow> int" where
  "Day t = t div msPerDay"

definition TimeWithinDay :: "int \<Rightarrow> int" where
  "TimeWithinDay t = t mod msPerDay"

definition DaysInYear :: "int \<Rightarrow> int" where
  "DaysInYear y =
     (if y mod 4 \<noteq> 0 then 365 else if y mod 100 \<noteq> 0 then 366
      else if y mod 400 \<noteq> 0 then 365 else 366)"

definition DayFromYear :: "int \<Rightarrow> int" where
  "DayFromYear y =
     365 * (y - 1970) + (y - 1969) div 4 - (y - 1901) div 100 + (y - 1601) div 400"

text \<open>
  The largest year whose first day is not after the day of \<open>t\<close>: an estimate from the
  mean length of a year, which is off by at most one, and its correction.
\<close>

definition YearFromTime :: "int \<Rightarrow> int" where
  "YearFromTime t =
     (let d = Day t; y = 1970 + (400 * d) div 146097
      in if d < DayFromYear y then y - 1
         else if DayFromYear (y + 1) \<le> d then y + 1 else y)"

definition DayWithinYear :: "int \<Rightarrow> int" where
  "DayWithinYear t = Day t - DayFromYear (YearFromTime t)"

definition InLeapYear :: "int \<Rightarrow> int" where
  "InLeapYear t = (if DaysInYear (YearFromTime t) = 366 then 1 else 0)"

text \<open>The day within a year on which a month starts.\<close>

definition month_start :: "int \<Rightarrow> int \<Rightarrow> int" where
  "month_start leap m =
     (if m = 0 then 0 else if m = 1 then 31 else if m = 2 then 59 + leap
      else if m = 3 then 90 + leap else if m = 4 then 120 + leap
      else if m = 5 then 151 + leap else if m = 6 then 181 + leap
      else if m = 7 then 212 + leap else if m = 8 then 243 + leap
      else if m = 9 then 273 + leap else if m = 10 then 304 + leap
      else if m = 11 then 334 + leap else 365 + leap)"

definition MonthFromTime :: "int \<Rightarrow> int" where
  "MonthFromTime t =
     (let d = DayWithinYear t; l = InLeapYear t
      in if d < month_start l 1 then 0 else if d < month_start l 2 then 1
         else if d < month_start l 3 then 2 else if d < month_start l 4 then 3
         else if d < month_start l 5 then 4 else if d < month_start l 6 then 5
         else if d < month_start l 7 then 6 else if d < month_start l 8 then 7
         else if d < month_start l 9 then 8 else if d < month_start l 10 then 9
         else if d < month_start l 11 then 10 else 11)"

definition DateFromTime :: "int \<Rightarrow> int" where
  "DateFromTime t = DayWithinYear t - month_start (InLeapYear t) (MonthFromTime t) + 1"

text \<open>
  MakeDay: the day number of the first day of the month, the month counted from the
  given year with any excess or deficit carried into the year, plus the date less one.
\<close>

definition MakeDay :: "int \<Rightarrow> int \<Rightarrow> int \<Rightarrow> int" where
  "MakeDay year month date =
     (let ym = year + month div 12; mn = month mod 12
      in DayFromYear ym + month_start (if DaysInYear ym = 366 then 1 else 0) mn + date - 1)"

definition MakeDate :: "int \<Rightarrow> int \<Rightarrow> int" where
  "MakeDate day time = day * msPerDay + time"

definition TimeClip :: "int \<Rightarrow> int option" where
  "TimeClip t = (if \<bar>t\<bar> \<le> 8640000000000000 then Some t else None)"

text \<open>\<^verbatim>\<open>Date.prototype.getMonth\<close> and \<^verbatim>\<open>Date.prototype.setMonth\<close> on a valid date.\<close>

definition getMonth :: "platform \<Rightarrow> int \<Rightarrow> int" where
  "getMonth P t = MonthFromTime (localTime P t)"

definition setMonth :: "platform \<Rightarrow> int \<Rightarrow> int \<Rightarrow> int option" where
  "setMonth P t month =
     (let lt = localTime P t;
          newDate = MakeDate (MakeDay (YearFromTime lt) month (DateFromTime lt)) (TimeWithinDay lt)
      in TimeClip (utcTime P newDate))"

text \<open>The comparison \<^verbatim>\<open>d.x >= cutoff\<close> of two dates: false when either is invalid.\<close>

definition x_ge :: "point \<Rightarrow> int option \<Rightarrow> bool" where
  "x_ge d cutoff = (case (px d, cutoff) of (Some s, Some c) \<Rightarrow> s \<ge> c | _ \<Rightarrow> False)"

text \<open>
  The time-range filter of \<^verbatim>\<open>updateChart\<close>, from \<^verbatim>\<open>const now = new Date()\<close> to the
  assignment of \<^verbatim>\<open>filteredData\<close>. The two calls of \<^verbatim>\<open>new Date()\<close> read the clock
  twice: \<open>now\<close> and \<open>now'\<close>.
\<close>

definition updateChart_filter :: "platform \<Rightarrow> manager \<Rightarrow> int \<Rightarrow> int \<Rightarrow> point list \<Rightarrow> point list" where
  "updateChart_filter P mgr now now' dat =
     (if currentTimeRange mgr \<noteq> ''ALL''
      then (let months = (if currentTimeRange mgr = ''1M'' then 1
                          else if currentTimeRange mgr = ''6M'' then 6 else 12);
                cutoff = setMonth P now' (getMonth P now - months)
            in filter (\<lambda>d. x_ge d cutoff) dat)
      else dat)"

subsection \<open>The filter as the specification words it\<close>

definition DaysInMonth :: "int \<Rightarrow> int \<Rightarrow> int" where
  "DaysInMonth y m =
     (let l = (if DaysInYear y = 366 then 1 else 0)
      in month_start l (m + 1) - month_start l m)"

text \<open>
  Now minus a number of calendar months, where a day of the month that the target month
  does not have is clamped to the last day of that month.
\<close>

definition clamped_cutoff :: "platform \<Rightarrow> int \<Rightarrow> int \<Rightarrow> int option" where
  "clamped_cutoff P now months =
     (let lt = localTime P now;
          m = MonthFromTime lt - months;
          ym = YearFromTime lt + m div 12;
          mn = m mod 12;
          dt = min (DateFromTime lt) (DaysInMonth ym mn)
      in TimeClip (utcTime P (MakeDate (MakeDay ym mn dt) (TimeWithinDay lt))))"

definition window_months :: "string \<Rightarrow> int" where
  "window_months tag = (if tag = ''1M'' then 1 else if tag = ''6M'' then 6 else 12)"

definition window_filter_clamped :: "platform \<Rightarrow> string \<Rightarrow> int \<Rightarrow> point list \<Rightarrow> point list" where
  "window_filter_clamped P tag now dat =
     (if tag = ''ALL'' then dat
      else filter (\<lambda>d. x_ge d (clamped_cutoff P now (window_months tag))) dat)"

section \<open>A concrete platform for running the model\<close>

text \<open>
  A small platform on ASCII strings and in the time zone UTC, to run the functions above
  on examples: lower-casing of the letters A to Z, decimal literals, the date-time format
  of ECMAScript in its forms \<^verbatim>\<open>YYYY-MM-DD\<close> and \<^verbatim>\<open>YYYY-MM-DDTHH:mm:ssZ\<close>, and a
  comparison of strings that orders letters alphabetically before it looks at their case.
  Every other string is not a date for it.
\<close>

definition is_digit :: "char \<Rightarrow> bool" where
  "is_digit c = (48 \<le> (of_char c :: nat) \<and> (of_char c :: nat) \<le> 57)"

definition digit_val :: "char \<Rightarrow> nat" where
  "digit_val c = of_char c - 48"

definition digits_val :: "string \<Rightarrow> nat" where
  "digits_val s = foldl (\<lambda>a c. 10 * a + digit_val c) 0 s"

definition lower_char :: "char \<Rightarrow> char" where
  "lower_char c =
     (if 65 \<le> (of_char c :: nat) \<and> (of_char c :: nat) \<le> 90
      then char_of ((of_char c :: nat) + 32) else c)"

definition demo_toLowerCase :: "string \<Rightarrow> string" where
  "demo_toLowerCase s = map lower_char s"

definition is_space :: "char \<Rightarrow> bool" where
  "is_space c = (c = CHR '' '' \<or> (9 \<le> (of_char c :: nat) \<and> (of_char c :: nat) \<le> 13))"

text \<open>
  The exponent part of a decimal literal, if the rest of the string starts with one:
  \<^verbatim>\<open>e\<close> or \<^verbatim>\<open>E\<close>, an optional sign, and at least one digit.
\<close>

definition exponent_of :: "string \<Rightarrow> int" where
  "exponent_of r =
     (case r of
        [] \<Rightarrow> 0
      | c # r1 \<Rightarrow>
          if c = CHR ''e'' \<or> c = CHR ''E''
          then (case r1 of
                  [] \<Rightarrow> 0
                | s # r2 \<Rightarrow>
                    if s = CHR ''-'' then (if takeWhile is_digit r2 = [] then 0
                                          else - int (digits_val (takeWhile is_digit r2)))
                    else if s = CHR ''+'' then int (digits_val (takeWhile is_digit r2))
                    else int (digits_val (takeWhile is_digit r1)))
          else 0)"

definition unsigned_literal :: "string \<Rightarrow> jsnum" where
  "unsigned_literal s =
     (if take 8 s = ''Infinity'' then PInf
      else (let ip = takeWhile is_digit s;
                r1 = dropWhile is_digit s;
                fp = (case r1 of [] \<Rightarrow> [] | c # r \<Rightarrow> if c = CHR ''.'' then takeWhile is_digit r else []);
                r2 = (case r1 of [] \<Rightarrow> [] | c # r \<Rightarrow> if c = CHR ''.'' then dropWhile is_digit r else r1)
            in if ip = [] \<and> fp = [] then NaN
               else (let q = (of_nat (digits_val (ip @ fp)) :: rat) / 10 ^ length fp
                             * (if 0 \<le> exponent_of r2 then 10 ^ nat (exponent_of r2)
                                else 1 / 10 ^ nat (- exponent_of r2))
                     in if q \<ge> 2 ^ 1024 - 2 ^ 970 then PInf else Fin q)))"

definition negate :: "jsnum \<Rightarrow> jsnum" where
  "negate n = (case n of NaN \<Rightarrow> NaN | PInf \<Rightarrow> NInf | NInf \<Rightarrow> PInf | Fin q \<Rightarrow> Fin (- q))"

definition demo_parseFloat :: "string \<Rightarrow> jsnum" where
  "demo_parseFloat s =
     (case dropWhile is_space s of
        [] \<Rightarrow> NaN
      | c # r \<Rightarrow>
          if c = CHR ''-'' then negate (unsigned_literal r)
          else if c = CHR ''+'' then unsigned_literal r
          else unsigned_literal (c # r))"

text \<open>Two, or four, digits at a position of a string.\<close>

definition num_at :: "string \<Rightarrow> nat \<Rightarrow> nat \<Rightarrow> int option" where
  "num_at s i n =
     (let w = take n (drop i s)
      in if length w = n \<and> list_all is_digit w then Some (int (digits_val w)) else None)"

definition demo_date :: "int \<Rightarrow> int \<Rightarrow> int \<Rightarrow> int \<Rightarrow> int \<Rightarrow> int \<Rightarrow> int option" where
  "demo_date y mo d h mi sec =
     (if 1 \<le> mo \<and> mo \<le> 12 \<and> 1 \<le> d \<and> d \<le> DaysInMonth y (mo - 1)
         \<and> h \<le> 23 \<and> mi \<le> 59 \<and> sec \<le> 59
      then TimeClip (MakeDate (MakeDay y (mo - 1) d) (((h * 60 + mi) * 60 + sec) * 1000))
      else None)"

definition demo_dateParse :: "string \<Rightarrow> int option" where
  "demo_dateParse s =
     (case (num_at s 0 4, num_at s 5 2, num_at s 8 2) of
        (Some y, Some mo, Some d) \<Rightarrow>
          if take 1 (drop 4 s) = ''-'' \<and> take 1 (drop 7 s) = ''-''
          then (if length s = 10 then demo_date y mo d 0 0 0
                else (case (num_at s 11 2, num_at s 14 2, num_at s 17 2) of
                        (Some h, Some mi, Some sec) \<Rightarrow>
                          if length s = 20 \<and> take 1 (drop 10 s) = ''T''
                             \<and> take 1 (drop 13 s) = '':'' \<and> take 1 (drop 16 s) = '':''
                             \<and> drop 19 s = ''Z''
                          then demo_date y mo d h mi sec else None
                      | _ \<Rightarrow> None))
          else None
      | _ \<Rightarrow> None)"

text \<open>
  The comparison of two strings: by their lower-cased letters first, then, for strings
  that differ in case only, the lower-case letter first.
\<close>

fun lex_compare :: "nat list \<Rightarrow> nat list \<Rightarrow> int" where
  "lex_compare [] [] = 0"
| "lex_compare [] (b # bs) = - 1"
| "lex_compare (a # as) [] = 1"
| "lex_compare (a # as) (b # bs) =
     (if a < b then - 1 else if b < a then 1 else lex_compare as bs)"

definition demo_localeCompare :: "string \<Rightarrow> string \<Rightarrow> int" where
  "demo_localeCompare s t =
     (let c = lex_compare (map of_char (demo_toLowerCase s)) (map of_char (demo_toLowerCase t))
      in if c \<noteq> 0 then c else - lex_compare (map of_char s) (map of_char t))"

text \<open>The last decimal digits of a natural number, as many as the width says.\<close>

fun digits_of :: "nat \<Rightarrow> nat \<Rightarrow> string" where
  "digits_of 0 n = []"
| "digits_of (Suc w) n = digits_of w (n div 10) @ [char_of (48 + n mod 10)]"

text \<open>The decimal digits of a natural number, without padding.\<close>

fun show_nat :: "nat \<Rightarrow> string" where
  "show_nat n =
     (if n < 10 then [char_of (48 + n)] else show_nat (n div 10) @ [char_of (48 + n mod 10)])"

declare show_nat.simps [simp del]

text \<open>
  Numbers print as integers or as decimal fractions of up to twenty places, which is
  how ECMAScript prints the numbers of moderate size with such a short expansion.
\<close>

fun fraction_digits :: "nat \<Rightarrow> nat \<Rightarrow> nat \<Rightarrow> string" where
  "fraction_digits 0 r d = []"
| "fraction_digits (Suc f) r d =
     (if r = 0 then [] else char_of (48 + (10 * r) div d) # fraction_digits f ((10 * r) mod d) d)"

definition show_rat :: "rat \<Rightarrow> string" where
  "show_rat q =
     (let n = nat (fst (quotient_of \<bar>q\<bar>)); d = nat (snd (quotient_of \<bar>q\<bar>));
          fr = fraction_digits 20 (n mod d) d
      in (if q < 0 then ''-'' else []) @ show_nat (n div d) @ (if fr = [] then [] else ''.'' @ fr))"

definition demo_numberToString :: "jsnum \<Rightarrow> string" where
  "demo_numberToString n =
     (case n of NaN \<Rightarrow> ''NaN'' | PInf \<Rightarrow> ''Infinity'' | NInf \<Rightarrow> ''-Infinity'' | Fin q \<Rightarrow> show_rat q)"

text \<open>\<^verbatim>\<open>YYYY-MM-DDTHH:mm:ss.sssZ\<close>, with a sign and six digits for a year outside 0 to 9999.\<close>

definition demo_toISOString :: "int \<Rightarrow> string" where
  "demo_toISOString t =
     (let y = YearFromTime t; w = TimeWithinDay t
      in (if 0 \<le> y \<and> y \<le> 9999 then digits_of 4 (nat y)
          else (if y < 0 then ''-'' else ''+'') @ digits_of 6 (nat \<bar>y\<bar>))
         @ ''-'' @ digits_of 2 (nat (MonthFromTime t + 1))
         @ ''-'' @ digits_of 2 (nat (DateFromTime t))
         @ ''T'' @ digits_of 2 (nat (w div 3600000))
         @ '':'' @ digits_of 2 (nat (w div 60000 mod 60))
         @ '':'' @ digits_of 2 (nat (w div 1000 mod 60))
         @ ''.'' @ digits_of 3 (nat (w mod 1000)) @ ''Z'')"

definition demo :: platform where
  "demo = \<lparr>toLowerCase = demo_toLowerCase, parseFloatStr = demo_parseFloat,
           dateParse = demo_dateParse, localeCompare = demo_localeCompare,
           numberToString = demo_numberToString, toISOString = demo_toISOString,
           localTime = (\<lambda>t. t), utcTime = (\<lambda>t. t)\<rparr>"

section \<open>Predicates used in the statements\<close>

text \<open>A record that reaches \<^verbatim>\<open>uniqueByTime.set\<close>: its time is truthy and its value defined.\<close>

definition settable :: "entry \<Rightarrow> bool" where
  "settable d = (truthy (timeStr_of d) \<and> val_of d \<noteq> JUndefined)"

text \<open>All records of the four partitions, in the order of iteration.\<close>

definition all_records :: "partitions \<Rightarrow> entry list" where
  "all_records ds = labs ds @ vitals ds @ activity ds @ sleep ds"

text \<open>The metric field \<^verbatim>\<open>d.metric || d.Metric\<close> of a record is a string or falsy.\<close>

definition metric_ok :: "entry \<Rightarrow> bool" where
  "metric_ok d =
     (case or_js (get_prop d ''metric'') (get_prop d ''Metric'') of
        JStr s \<Rightarrow> True
      | v \<Rightarrow> \<not> truthy v)"

text \<open>The filter callback returns true on a record.\<close>

definition matching :: "platform \<Rightarrow> string \<Rightarrow> entry \<Rightarrow> bool" where
  "matching P metricName d = (metric_matches P metricName d = Inr True)"

definition matching_entries :: "platform \<Rightarrow> partitions \<Rightarrow> string \<Rightarrow> entry list" where
  "matching_entries P ds metricName = filter (matching P metricName) (all_records ds)"

text \<open>The entries of the map that survive the filter on \<^verbatim>\<open>NaN\<close>, under their raw keys.\<close>

definition keyed_series :: "platform \<Rightarrow> partitions \<Rightarrow> string \<Rightarrow> (jsval \<times> jsnum) list" where
  "keyed_series P ds metricName =
     filter (\<lambda>e. snd e \<noteq> NaN) (uniqueByTime P (matching_entries P ds metricName))"

text \<open>The comparison \<^verbatim>\<open>a.x <= b.x\<close> of the dates of two points.\<close>

definition x_le :: "point \<Rightarrow> point \<Rightarrow> bool" where
  "x_le a b = (case (px a, px b) of (Some s, Some t) \<Rightarrow> s \<le> t | _ \<Rightarrow> False)"

text \<open>The records of the four partitions, each with the tag of its partition.\<close>

definition tagged_records :: "partitions \<Rightarrow> (source \<times> entry) list" where
  "tagged_records ds =
     map (Pair Labs) (labs ds) @ map (Pair Vitals) (vitals ds)
       @ map (Pair Activity) (activity ds) @ map (Pair Sleep) (sleep ds)"

text \<open>The lower-cased metric name of a record, empty when the record has none.\<close>

definition metric_key :: "platform \<Rightarrow> entry \<Rightarrow> string" where
  "metric_key P d =
     (case or_js (or_js (get_prop d ''metric'') (get_prop d ''Metric'')) (JStr []) of
        JStr s \<Rightarrow> toLowerCase P s
      | _ \<Rightarrow> [])"

text \<open>The descriptor that a record of a partition gives.\<close>

definition descriptor_of :: "platform \<Rightarrow> source \<Rightarrow> entry \<Rightarrow> descriptor" where
  "descriptor_of P src d =
     \<lparr>name = metric_key P d,
      label = or_js (or_js (get_prop d ''source_display'') (get_prop d ''OriginalName''))
                    (or_js (get_prop d ''metric'') (get_prop d ''Metric'')),
      unit = or_js (or_js (get_prop d ''unit'') (get_prop d ''Unit'')) (JStr []),
      source = src\<rparr>"

text \<open>The label of a descriptor as \<^verbatim>\<open>localeCompare\<close> reads it.\<close>

definition label_string :: "platform \<Rightarrow> descriptor \<Rightarrow> string" where
  "label_string P m = toString P (label m)"

text \<open>
  The comparison of the platform is a consistent ordering of a set of strings: it puts
  \<open>x\<close> before \<open>y\<close> exactly when it puts \<open>y\<close> after \<open>x\<close>, and it is transitive.
\<close>

definition collates :: "platform \<Rightarrow> string set \<Rightarrow> bool" where
  "collates P L =
     ((\<forall>x\<in>L. \<forall>y\<in>L. localeCompare P x y < 0 \<longleftrightarrow> localeCompare P y x > 0)
      \<and> (\<forall>x\<in>L. \<forall>y\<in>L. \<forall>z\<in>L.
            localeCompare P x y \<le> 0 \<longrightarrow> localeCompare P y z \<le> 0 \<longrightarrow> localeCompare P x z \<le> 0))"

text \<open>
  The display label \<^verbatim>\<open>entry.source_display || entry.OriginalName\<close> of a record is a
  string or falsy.
\<close>

definition label_ok :: "entry \<Rightarrow> bool" where
  "label_ok d =
     (case or_js (get_prop d ''source_display'') (get_prop d ''OriginalName'') of
        JStr s \<Rightarrow> True
      | v \<Rightarrow> \<not> truthy v)"

text \<open>The label that a record gives to a descriptor, as \<^verbatim>\<open>localeCompare\<close> reads it.\<close>

definition record_label :: "platform \<Rightarrow> entry \<Rightarrow> string" where
  "record_label P d =
     toString P (or_js (or_js (get_prop d ''source_display'') (get_prop d ''OriginalName''))
                       (or_js (get_prop d ''metric'') (get_prop d ''Metric'')))"

text \<open>
  The field \<^verbatim>\<open>value\<close> of a record is absent or truthy: then \<^verbatim>\<open>d.value || d.Value\<close>
  is the field \<^verbatim>\<open>value\<close> where the record has it and the field \<^verbatim>\<open>Value\<close> otherwise.
\<close>

definition value_plain :: "entry \<Rightarrow> bool" where
  "value_plain d = (get_prop d ''value'' = JUndefined \<or> truthy (get_prop d ''value''))"

text \<open>A record has a value under one of the two names, and the value it has.\<close>

definition has_value :: "entry \<Rightarrow> bool" where
  "has_value d = (get_prop d ''value'' \<noteq> JUndefined \<or> get_prop d ''Value'' \<noteq> JUndefined)"

definition value_of :: "entry \<Rightarrow> jsval" where
  "value_of d =
     (if get_prop d ''value'' = JUndefined then get_prop d ''Value'' else get_prop d ''value'')"

text \<open>A record carries a truthy timestamp and a value.\<close>

definition carries :: "entry \<Rightarrow> bool" where
  "carries d = (truthy (timeStr_of d) \<and> has_value d)"

text \<open>
  The parsed value of the last matching record, in the order of iteration over partitions
  and records, that carries the raw timestamp \<open>k\<close> and a value; \<open>None\<close> when there is no
  such record.
\<close>

definition last_value :: "platform \<Rightarrow> partitions \<Rightarrow> string \<Rightarrow> jsval \<Rightarrow> jsnum option" where
  "last_value P ds metricName k =
     (let ks = filter (\<lambda>d. carries d \<and> timeStr_of d = k) (matching_entries P ds metricName)
      in if ks = [] then None else Some (parseFloat P (value_of (last ks))))"

text \<open>
  A record lacks a metric name, a timestamp or a value; and the dataset without such
  records.
\<close>

definition defective :: "entry \<Rightarrow> bool" where
  "defective d =
     (\<not> truthy (or_js (get_prop d ''metric'') (get_prop d ''Metric''))
      \<or> \<not> truthy (timeStr_of d) \<or> \<not> has_value d)"

definition without_defects :: "partitions \<Rightarrow> partitions" where
  "without_defects ds =
     \<lparr>labs = filter (\<lambda>d. \<not> defective d) (labs ds),
      vitals = filter (\<lambda>d. \<not> defective d) (vitals ds),
      activity = filter (\<lambda>d. \<not> defective d) (activity ds),
      sleep = filter (\<lambda>d. \<not> defective d) (sleep ds)\<rparr>"

text \<open>The four documents, when every file loads.\<close>

definition fetched :: "fetcher \<Rightarrow> partitions" where
  "fetched fetch =
     \<lparr>labs = the (fetch Labs), vitals = the (fetch Vitals),
      activity = the (fetch Activity), sleep = the (fetch Sleep)\<rparr>"

text \<open>
  The partitions after the files that load before the first one that fails have replaced
  theirs.
\<close>

definition data_after :: "fetcher \<Rightarrow> partitions \<Rightarrow> partitions" where
  "data_after fetch ds =
     (case fetch Labs of
        None \<Rightarrow> ds
      | Some l \<Rightarrow>
          (case fetch Vitals of
             None \<Rightarrow> ds\<lparr>labs := l\<rparr>
           | Some v \<Rightarrow>
               (case fetch Activity of
                  None \<Rightarrow> ds\<lparr>labs := l, vitals := v\<rparr>
                | Some a \<Rightarrow>
                    (case fetch Sleep of
                       None \<Rightarrow> ds\<lparr>labs := l, vitals := v, activity := a\<rparr>
                     | Some s \<Rightarrow> ds\<lparr>labs := l, vitals := v, activity := a, sleep := s\<rparr>))))"

text \<open>The body of the two loops of \<open>indexMetrics\<close> on a record with its tag.\<close>

definition index_step ::
  "platform \<Rightarrow> string list \<times> (string \<times> descriptor) list \<Rightarrow> source \<times> entry
     \<Rightarrow> exn + string list \<times> (string \<times> descriptor) list" where
  "index_step P st sd = index_entry P (fst sd) st (snd sd)"

text \<open>
  The invariant of the loops: the keys of the map are the elements of the set, in the
  same order, without repetition, and none is empty.
\<close>

definition index_inv :: "string list \<times> (string \<times> descriptor) list \<Rightarrow> bool" where
  "index_inv st = (map fst (snd st) = fst st \<and> distinct (fst st) \<and> [] \<notin> set (fst st))"

section \<open>Example data\<close>

definition sample :: "string \<Rightarrow> string \<Rightarrow> jsval \<Rightarrow> entry" where
  "sample m t v = [(''metric'', JStr m), (''timestamp'', JStr t), (''value'', v)]"

definition vitals_only :: "entry list \<Rightarrow> partitions" where
  "vitals_only es = \<lparr>labs = [], vitals = es, activity = [], sleep = []\<rparr>"

text \<open>Three readings, the second with a timestamp that is not a date.\<close>

definition ds_unsorted :: partitions where
  "ds_unsorted = vitals_only
     [sample ''hr'' ''2024-02-01T00:00:00Z'' (JNum (Fin 1)),
      sample ''hr'' ''garbage'' (JNum (Fin 2)),
      sample ''hr'' ''2024-01-01T00:00:00Z'' (JNum (Fin 3))]"

text \<open>Two readings, the later one first.\<close>

definition ds_two :: partitions where
  "ds_two = vitals_only
     [sample ''hr'' ''2024-02-01T00:00:00Z'' (JNum (Fin 1)),
      sample ''HR'' ''2024-01-01T00:00:00Z'' (JNum (Fin 3))]"

text \<open>One reading whose value is the number zero.\<close>

definition ds_zero :: partitions where
  "ds_zero = vitals_only [sample ''hr'' ''2024-01-01T00:00:00Z'' (JNum (Fin 0))]"

text \<open>Two readings at the same instant, under two casings of the metric name.\<close>

definition ds_rhr :: partitions where
  "ds_rhr = vitals_only
     [sample ''RestingHeartRate'' ''2024-01-01T00:00:00Z'' (JNum (Fin 60)),
      sample ''restingheartrate'' ''2024-01-01T00:00:00Z'' (JNum (Fin 62))]"

text \<open>Two readings at the same instant, the later one without a numeric value.\<close>

definition ds_overwritten :: partitions where
  "ds_overwritten = vitals_only
     [sample ''hr'' ''2024-01-01T00:00:00Z'' (JNum (Fin 60)),
      sample ''hr'' ''2024-01-01T00:00:00Z'' (JStr ''n/a'')]"

text \<open>One reading with a timestamp that is not a date.\<close>

definition ds_garbage :: partitions where
  "ds_garbage = vitals_only [sample ''hr'' ''garbage'' (JNum (Fin 1))]"

text \<open>One reading whose value is the string Infinity.\<close>

definition ds_infinite :: partitions where
  "ds_infinite = vitals_only [sample ''hr'' ''2024-01-01T00:00:00Z'' (JStr ''Infinity'')]"

text \<open>
  A record without a metric name, one without a timestamp, one without a value, one whose
  value is not a number, and a reading with a timestamp that is not a date.
\<close>

definition ds_defects :: partitions where
  "ds_defects = vitals_only
     [ [(''timestamp'', JStr ''2024-01-01T00:00:00Z''), (''value'', JNum (Fin 5))],
       [(''metric'', JStr ''hr''), (''value'', JNum (Fin 7))],
       [(''metric'', JStr ''hr''), (''timestamp'', JStr ''2024-01-02T00:00:00Z'')],
       sample ''hr'' ''2024-01-03T00:00:00Z'' (JStr ''n/a''),
       sample ''hr'' ''garbage'' (JNum (Fin 1))]"

text \<open>One record whose metric field is a number.\<close>

definition ds_nonstring :: partitions where
  "ds_nonstring = vitals_only
     [ [(''metric'', JNum (Fin 5)), (''timestamp'', JStr ''2024-01-01T00:00:00Z''),
       (''value'', JNum (Fin 1))] ]"

text \<open>
  A series with points at 2023-02-15, 2023-08-15, 2024-01-15 and 2024-03-10, and the
  instant 2024-03-15T12:00:00Z: the points are about 13, 7, 2 and 0 months before it.
\<close>

definition window_points :: "point list" where
  "window_points =
     [Point (Some 1676419200000) (Fin 1), Point (Some 1692057600000) (Fin 2),
      Point (Some 1705276800000) (Fin 3), Point (Some 1710028800000) (Fin 4)]"

definition mid_march :: int where
  "mid_march = 1710504000000"

text \<open>The instant 2024-03-31T12:00:00Z, and a point at 2024-03-01T00:00:00Z.\<close>

definition end_of_march :: int where
  "end_of_march = 1711886400000"

definition first_of_march :: point where
  "first_of_march = Point (Some 1709251200000) (Fin 1)"

text \<open>
  A dataset with two metrics: the first under two casings in two partitions, the second
  in two partitions as well; and a record without a metric name.
\<close>

definition ds_index :: partitions where
  "ds_index =
     \<lparr>labs = [ [(''Metric'', JStr ''RestingHeartRate''), (''source_display'', JStr ''Resting HR''),
               (''unit'', JStr ''bpm'')] ],
      vitals = [ [(''metric'', JStr ''HbA1c''), (''OriginalName'', JStr ''Hemoglobin A1c''),
                 (''Unit'', JStr ''%'')],
                [(''metric'', JStr ''restingheartrate''), (''unit'', JStr ''1/min'')] ],
      activity = [ [(''timestamp'', JStr ''2024-01-01T00:00:00Z''), (''value'', JNum (Fin 1))] ],
      sleep = [ [(''metric'', JStr ''HBA1C'')] ]\<rparr>"

text \<open>Two metrics, the second in two partitions under two casings.\<close>

definition ds_catalog :: partitions where
  "ds_catalog =
     \<lparr>labs = [ [(''Metric'', JStr ''RestingHeartRate''), (''source_display'', JStr ''Resting HR''),
               (''unit'', JStr ''bpm'')] ],
      vitals = [ [(''metric'', JStr ''HbA1c''), (''OriginalName'', JStr ''Hemoglobin A1c''),
                 (''Unit'', JStr ''%'')] ],
      activity = [],
      sleep = [ [(''metric'', JStr ''HBA1C'')] ]\<rparr>"

text \<open>Four loads that succeed, and four of which the third fails.\<close>

definition fetch_all :: fetcher where
  "fetch_all k =
     (case k of Labs \<Rightarrow> Some (labs ds_index) | Vitals \<Rightarrow> Some (vitals ds_index)
      | Activity \<Rightarrow> Some (activity ds_index) | Sleep \<Rightarrow> Some (sleep ds_index))"

definition fetch_failing :: fetcher where
  "fetch_failing k =
     (case k of Labs \<Rightarrow> Some (labs ds_index) | Vitals \<Rightarrow> Some (vitals ds_index)
      | Activity \<Rightarrow> None | Sleep \<Rightarrow> Some (sleep ds_index))"

section \<open>Properties of the array and map operations\<close>

subsection \<open>Filtering\<close>

lemma filterE_Inr:
  "filterE p ds = Inr r \<Longrightarrow> r = filter (\<lambda>d. p d = Inr True) ds \<and> (\<forall>d\<in>set ds. \<exists>b. p d = Inr b)"
  by (induction ds arbitrary: r) (auto split: sum.splits if_splits)

lemma filterE_total:
  "\<forall>d\<in>set ds. \<exists>b. p d = Inr b \<Longrightarrow> filterE p ds = Inr (filter (\<lambda>d. p d = Inr True) ds)"
  by (induction ds) (auto split: sum.splits)

lemma collect_entries_Inr:
  "collect_entries p dss = Inr r \<Longrightarrow>
     r = filter (\<lambda>d. p d = Inr True) (concat dss) \<and> (\<forall>d\<in>set (concat dss). \<exists>b. p d = Inr b)"
proof (induction dss arbitrary: r)
  case Nil
  then show ?case by simp
next
  case (Cons ds dss)
  from Cons.prems obtain f r' where f: "filterE p ds = Inr f"
    and r': "collect_entries p dss = Inr r'" and r: "r = f @ r'"
    by (auto split: sum.splits)
  from filterE_Inr [OF f] Cons.IH [OF r'] r show ?case by auto
qed

lemma collect_entries_total:
  "\<forall>d\<in>set (concat dss). \<exists>b. p d = Inr b \<Longrightarrow>
     collect_entries p dss = Inr (filter (\<lambda>d. p d = Inr True) (concat dss))"
proof (induction dss)
  case Nil
  then show ?case by simp
next
  case (Cons ds dss)
  then have "filterE p ds = Inr (filter (\<lambda>d. p d = Inr True) ds)"
    by (intro filterE_total) simp
  moreover from Cons have "collect_entries p dss = Inr (filter (\<lambda>d. p d = Inr True) (concat dss))"
    by simp
  ultimately show ?case by simp
qed

subsection \<open>Sorting\<close>

lemma insert_js_mset:
  "insert_js gt a bs = Inr r \<Longrightarrow> mset r = add_mset a (mset bs)"
  by (induction bs arbitrary: r) (auto split: sum.splits if_splits)

lemma sort_js_mset:
  "sort_js gt xs = Inr r \<Longrightarrow> mset r = mset xs"
  by (induction xs arbitrary: r) (auto split: sum.splits dest: insert_js_mset)

lemma insert_js_total:
  "\<forall>b\<in>set bs. \<exists>g. gt a b = Inr g \<Longrightarrow> \<exists>r. insert_js gt a bs = Inr r"
  by (induction bs) (auto split: sum.splits)

lemma sort_js_total:
  "\<forall>a\<in>set xs. \<forall>b\<in>set xs. \<exists>g. gt a b = Inr g \<Longrightarrow> \<exists>r. sort_js gt xs = Inr r"
proof (induction xs)
  case Nil
  then show ?case by simp
next
  case (Cons a xs)
  then obtain r where r: "sort_js gt xs = Inr r" by auto
  then have "set r = set xs" by (metis sort_js_mset set_mset_mset)
  with Cons.prems have "\<forall>b\<in>set r. \<exists>g. gt a b = Inr g" by simp
  then have "\<exists>r'. insert_js gt a r = Inr r'" by (rule insert_js_total)
  with r show ?case by simp
qed

lemma insert_js_sorted:
  assumes "insert_js gt a bs = Inr r" and "sorted_wrt le bs"
    and T: "\<And>b. b \<in> set bs \<Longrightarrow> gt a b = Inr True \<Longrightarrow> le b a"
    and F: "\<And>b. b \<in> set bs \<Longrightarrow> gt a b = Inr False \<Longrightarrow> le a b"
    and tr: "\<And>b c. b \<in> set bs \<Longrightarrow> c \<in> set bs \<Longrightarrow> le a b \<Longrightarrow> le b c \<Longrightarrow> le a c"
  shows "sorted_wrt le r"
  using assms
proof (induction bs arbitrary: r)
  case Nil
  then show ?case by auto
next
  case (Cons b bs)
  from Cons.prems(1) obtain g where g: "gt a b = Inr g" by (auto split: sum.splits)
  have sb: "sorted_wrt le bs" and bb: "\<forall>c\<in>set bs. le b c"
    using Cons.prems(2) by simp_all
  show ?case
  proof (cases g)
    case True
    with Cons.prems(1) g obtain r' where r': "insert_js gt a bs = Inr r'" and r: "r = b # r'"
      by (auto split: sum.splits)
    have "sorted_wrt le r'"
    proof (rule Cons.IH [OF r' sb])
      fix c assume "c \<in> set bs" "gt a c = Inr True"
      then show "le c a" using Cons.prems(3) [of c] by simp
    next
      fix c assume "c \<in> set bs" "gt a c = Inr False"
      then show "le a c" using Cons.prems(4) [of c] by simp
    next
      fix c d assume "c \<in> set bs" "d \<in> set bs" "le a c" "le c d"
      then show "le a d" using Cons.prems(5) [of c d] by simp
    qed
    moreover have "set r' = insert a (set bs)"
      using insert_js_mset [OF r'] by (metis set_mset_mset set_mset_add_mset_insert)
    moreover have "le b a" using Cons.prems(3) [of b] g True by simp
    ultimately show ?thesis using r bb by simp
  next
    case False
    with Cons.prems(1) g have r: "r = a # b # bs" by simp
    have ab: "le a b" using Cons.prems(4) [of b] g False by simp
    have "\<forall>c\<in>set bs. le a c"
    proof
      fix c assume c: "c \<in> set bs"
      with bb have "le b c" by simp
      with ab c show "le a c" using Cons.prems(5) [of b c] by simp
    qed
    with ab r sb bb show ?thesis by simp
  qed
qed

lemma sort_js_sorted:
  assumes "sort_js gt xs = Inr r"
    and "\<forall>a\<in>set xs. \<forall>b\<in>set xs. (gt a b = Inr True \<longrightarrow> le b a) \<and> (gt a b = Inr False \<longrightarrow> le a b)"
    and "\<forall>a\<in>set xs. \<forall>b\<in>set xs. \<forall>c\<in>set xs. le a b \<longrightarrow> le b c \<longrightarrow> le a c"
  shows "sorted_wrt le r"
  using assms
proof (induction xs arbitrary: r)
  case Nil
  from Nil(1) have "r = []" by simp
  then show ?case by simp
next
  case (Cons a xs)
  obtain r' where r': "sort_js gt xs = Inr r'" and r: "insert_js gt a r' = Inr r"
  proof (cases "sort_js gt xs")
    case (Inl e)
    with Cons.prems(1) show ?thesis by simp
  next
    case (Inr r')
    with Cons.prems(1) that show ?thesis by simp
  qed
  have s: "set r' = set xs" using sort_js_mset [OF r'] by (metis set_mset_mset)
  have p2: "\<forall>a\<in>set xs. \<forall>b\<in>set xs. (gt a b = Inr True \<longrightarrow> le b a) \<and> (gt a b = Inr False \<longrightarrow> le a b)"
    using Cons.prems(2) by (meson list.set_intros(2))
  have p3: "\<forall>a\<in>set xs. \<forall>b\<in>set xs. \<forall>c\<in>set xs. le a b \<longrightarrow> le b c \<longrightarrow> le a c"
    using Cons.prems(3) by (meson list.set_intros(2))
  have sr: "sorted_wrt le r'"
    by (rule Cons.IH [OF r' p2 p3])
  show ?case
  proof (rule insert_js_sorted [OF r sr])
    fix c assume c: "c \<in> set r'" and g: "gt a c = Inr True"
    from c s have "c \<in> set (a # xs)" by simp
    moreover have "a \<in> set (a # xs)" by simp
    ultimately show "le c a" using Cons.prems(2) g by blast
  next
    fix c assume c: "c \<in> set r'" and g: "gt a c = Inr False"
    from c s have "c \<in> set (a # xs)" by simp
    moreover have "a \<in> set (a # xs)" by simp
    ultimately show "le a c" using Cons.prems(2) g by blast
  next
    fix c d assume c: "c \<in> set r'" and d: "d \<in> set r'" and l: "le a c" "le c d"
    from c d s have "c \<in> set (a # xs)" "d \<in> set (a # xs)" by simp_all
    moreover have "a \<in> set (a # xs)" by simp
    ultimately show "le a d" using Cons.prems(3) l by blast
  qed
qed

subsection \<open>The map\<close>

lemma map_of_map_set: "map_of (map_set k v m) = (map_of m)(k \<mapsto> v)"
  by (induction m) (auto simp: fun_eq_iff)

lemma keys_map_set: "fst ` set (map_set k v m) = insert k (fst ` set m)"
  by (simp add: map_of_map_set flip: dom_map_of_conv_image_fst)

lemma distinct_map_set: "distinct (map fst m) \<Longrightarrow> distinct (map fst (map_set k v m))"
  by (induction m) (auto simp: keys_map_set)

lemma map_set_fresh: "k \<notin> set (map fst m) \<Longrightarrow> map_set k v m = m @ [(k, v)]"
  by (induction m) auto

lemma filter_key_distinct:
  "distinct (map fst m) \<Longrightarrow>
     filter (\<lambda>e. fst e = k) m = (case map_of m k of None \<Rightarrow> [] | Some v \<Rightarrow> [(k, v)])"
proof (induction m)
  case Nil
  then show ?case by simp
next
  case (Cons e m)
  show ?case
  proof (cases "fst e = k")
    case True
    with Cons.prems have "k \<notin> fst ` set m" by auto
    then have "filter (\<lambda>e. fst e = k) m = []" by (auto simp: filter_empty_conv)
    with True show ?thesis by (cases e) simp
  next
    case False
    with Cons show ?thesis by (cases e) auto
  qed
qed

lemma distinct_foldl_set_by_time:
  "distinct (map fst m) \<Longrightarrow> distinct (map fst (foldl (set_by_time P) m es))"
  by (induction es arbitrary: m) (auto simp: set_by_time_def Let_def distinct_map_set)

lemma map_of_foldl_set_by_time:
  "map_of (foldl (set_by_time P) m es) k =
     (let ks = filter (\<lambda>d. settable d \<and> timeStr_of d = k) es
      in if ks = [] then map_of m k else Some (parseFloat P (val_of (last ks))))"
proof (induction es arbitrary: m)
  case Nil
  then show ?case by simp
next
  case (Cons d es)
  show ?case
  proof (cases "settable d")
    case True
    then have "set_by_time P m d = map_set (timeStr_of d) (parseFloat P (val_of d)) m"
      by (simp add: set_by_time_def settable_def)
    with True show ?thesis
      by (simp add: Cons.IH Let_def map_of_map_set)
  next
    case False
    then have "set_by_time P m d = m"
      by (auto simp: set_by_time_def settable_def)
    with False show ?thesis
      by (simp add: Cons.IH Let_def)
  qed
qed

lemma distinct_uniqueByTime: "distinct (map fst (uniqueByTime P es))"
  by (simp add: uniqueByTime_def distinct_foldl_set_by_time)

lemma map_of_uniqueByTime:
  "map_of (uniqueByTime P es) k =
     (let ks = filter (\<lambda>d. settable d \<and> timeStr_of d = k) es
      in if ks = [] then None else Some (parseFloat P (val_of (last ks))))"
  by (simp add: uniqueByTime_def map_of_foldl_set_by_time Let_def)

section \<open>Properties of getMetricData\<close>

lemma concat_data_values: "concat (map snd (data_values ds)) = all_records ds"
  by (simp add: data_values_def all_records_def)

lemma metric_ok_matches: "metric_ok d \<longleftrightarrow> (\<exists>b. metric_matches P n d = Inr b)"
  by (auto simp: metric_ok_def metric_matches_def Let_def split: jsval.splits)

lemma not_metric_ok_matches: "\<not> metric_ok d \<Longrightarrow> metric_matches P n d = Inl TypeError"
  by (auto simp: metric_ok_def metric_matches_def Let_def split: jsval.splits)

lemma filter_to_point:
  "filter (\<lambda>d. py d \<noteq> NaN) (map (to_point P) m) = map (to_point P) (filter (\<lambda>e. snd e \<noteq> NaN) m)"
  by (induction m) (auto simp: to_point_def)

lemma sort_points_total: "\<exists>r. sort_js (\<lambda>a b. Inr (x_gt a b)) xs = Inr r"
  by (rule sort_js_total) simp

lemma getMetricData_Inr:
  assumes "getMetricData P ds n = Inr pts"
  shows "list_all metric_ok (all_records ds)"
    and "sort_js (\<lambda>a b. Inr (x_gt a b)) (map (to_point P) (keyed_series P ds n)) = Inr pts"
proof -
  from assms obtain es where es: "collect_entries (metric_matches P n) (map snd (data_values ds)) = Inr es"
    and s: "sort_js (\<lambda>a b. Inr (x_gt a b))
              (filter (\<lambda>d. py d \<noteq> NaN) (map (to_point P) (uniqueByTime P es))) = Inr pts"
    by (auto simp: getMetricData_def split: sum.splits)
  from collect_entries_Inr [OF es]
  have e: "es = matching_entries P ds n" and ok: "\<forall>d\<in>set (all_records ds). \<exists>b. metric_matches P n d = Inr b"
    by (simp_all add: concat_data_values matching_entries_def matching_def [abs_def])
  from ok show "list_all metric_ok (all_records ds)"
    by (simp add: list_all_iff metric_ok_matches [of _ P n])
  from s e show "sort_js (\<lambda>a b. Inr (x_gt a b)) (map (to_point P) (keyed_series P ds n)) = Inr pts"
    by (simp add: filter_to_point keyed_series_def)
qed

lemma getMetricData_ok:
  assumes "list_all metric_ok (all_records ds)"
  shows "getMetricData P ds n =
           sort_js (\<lambda>a b. Inr (x_gt a b)) (map (to_point P) (keyed_series P ds n))"
proof -
  from assms have "\<forall>d\<in>set (concat (map snd (data_values ds))). \<exists>b. metric_matches P n d = Inr b"
    by (simp add: concat_data_values list_all_iff metric_ok_matches [of _ P n])
  from collect_entries_total [OF this]
  have "collect_entries (metric_matches P n) (map snd (data_values ds)) = Inr (matching_entries P ds n)"
    by (simp add: concat_data_values matching_entries_def matching_def [abs_def])
  then show ?thesis
    by (simp add: getMetricData_def filter_to_point keyed_series_def)
qed

lemma getMetricData_total:
  "list_all metric_ok (all_records ds) \<Longrightarrow> \<exists>pts. getMetricData P ds n = Inr pts"
  by (simp add: getMetricData_ok sort_points_total)

lemma filterE_Inl: "filterE p ds = Inl e \<Longrightarrow> \<exists>d\<in>set ds. p d = Inl e"
  by (induction ds) (auto split: sum.splits)

lemma collect_entries_Inl: "collect_entries p dss = Inl e \<Longrightarrow> \<exists>d\<in>set (concat dss). p d = Inl e"
  by (induction dss) (auto split: sum.splits dest: filterE_Inl)

lemma metric_matches_Inl: "metric_matches P n d = Inl e \<Longrightarrow> e = TypeError"
  by (auto simp: metric_matches_def Let_def split: jsval.splits if_splits)

lemma getMetricData_Inl:
  assumes "getMetricData P ds n = Inl e"
  shows "e = TypeError"
proof (cases "collect_entries (metric_matches P n) (map snd (data_values ds))")
  case (Inl e')
  with assms have "e' = e" by (simp add: getMetricData_def)
  with collect_entries_Inl [OF Inl] show ?thesis by (auto dest: metric_matches_Inl)
next
  case (Inr es)
  with assms sort_points_total [of "filter (\<lambda>d. py d \<noteq> NaN) (map (to_point P) (uniqueByTime P es))"]
  show ?thesis by (auto simp: getMetricData_def)
qed

lemma getMetricData_raises:
  assumes "\<not> list_all metric_ok (all_records ds)"
  shows "getMetricData P ds n = Inl TypeError"
proof (cases "getMetricData P ds n")
  case (Inl e)
  with getMetricData_Inl [OF Inl] show ?thesis by simp
next
  case (Inr pts)
  with getMetricData_Inr(1) [OF Inr] assms show ?thesis by simp
qed

lemma keyed_series_distinct: "distinct (map fst (keyed_series P ds n))"
  by (simp add: keyed_series_def distinct_map_filter distinct_uniqueByTime)

lemma keyed_series_source:
  assumes "(k, v) \<in> set (keyed_series P ds n)"
  shows "v \<noteq> NaN \<and> (\<exists>d\<in>set (matching_entries P ds n). settable d \<and> timeStr_of d = k \<and> v = parseFloat P (val_of d))"
proof -
  let ?es = "matching_entries P ds n"
  let ?ks = "filter (\<lambda>d. settable d \<and> timeStr_of d = k) ?es"
  from assms have v: "v \<noteq> NaN" and m: "(k, v) \<in> set (uniqueByTime P ?es)"
    by (simp_all add: keyed_series_def)
  from m have "map_of (uniqueByTime P ?es) k = Some v"
    by (simp add: distinct_uniqueByTime)
  then have ne: "?ks \<noteq> []" and l: "v = parseFloat P (val_of (last ?ks))"
    by (auto simp: map_of_uniqueByTime Let_def split: if_splits)
  from ne have "last ?ks \<in> set ?ks" by (rule last_in_set)
  then have "last ?ks \<in> set ?es \<and> settable (last ?ks) \<and> timeStr_of (last ?ks) = k" by simp
  with v l show ?thesis by blast
qed

lemma x_sorted:
  assumes "sort_js (\<lambda>a b. Inr (x_gt a b)) xs = Inr pts" and "\<forall>p\<in>set pts. px p \<noteq> None"
  shows "sorted_wrt x_le pts"
proof -
  have s: "set pts = set xs" using sort_js_mset [OF assms(1)] by (metis set_mset_mset)
  show ?thesis
  proof (rule sort_js_sorted [OF assms(1)])
    show "\<forall>a\<in>set xs. \<forall>b\<in>set xs. (Inr (x_gt a b) = Inr True \<longrightarrow> x_le b a)
            \<and> (Inr (x_gt a b) = Inr False \<longrightarrow> x_le a b)"
      using assms(2) s by (auto simp: x_gt_def x_le_def split: option.splits)
    show "\<forall>a\<in>set xs. \<forall>b\<in>set xs. \<forall>c\<in>set xs. x_le a b \<longrightarrow> x_le b c \<longrightarrow> x_le a c"
      by (auto simp: x_le_def split: option.splits)
  qed
qed

lemma filter_swap: "filter p (filter q xs) = filter q (filter p xs)"
  by (induction xs) auto

section \<open>Properties of getLatestValue\<close>

lemma sorted_wrt_last:
  "sorted_wrt R xs \<Longrightarrow> x \<in> set xs \<Longrightarrow> x = last xs \<or> R x (last xs)"
  by (induction xs) (auto split: if_splits)

lemma getLatestValue_Inr:
  assumes "getMetricData P (data mgr) metricName = Inr pts"
  shows "getLatestValue P mgr metricName =
           (if pts = [] then Inr None
            else case px (last pts) of
                   None \<Rightarrow> Inl RangeError
                 | Some t \<Rightarrow>
                     Inr (Some \<lparr>lv_timestamp = toISOString P t, lv_value = py (last pts),
                                lv_metric = metricName,
                                lv_unit = lookup_unit P (metrics mgr) metricName\<rparr>))"
  using assms by (simp add: getLatestValue_def Let_def last_conv_nth cong: option.case_cong)

section \<open>Properties of the calendar\<close>

lemma div_step:
  assumes "0 < (k::int)"
  shows "(a + 1) div k = a div k + (if (a + 1) mod k = 0 then 1 else 0)"
proof (cases "(a + 1) mod k = 0")
  case True
  have e: "k * ((a + 1) div k) + (a + 1) mod k = a + 1" by (rule mult_div_mod_eq)
  have "k * ((a + 1) div k - 1) = k * ((a + 1) div k) - k" by (simp add: algebra_simps)
  with e True have "a = k * ((a + 1) div k - 1) + (k - 1)" by linarith
  then have "a div k = (a + 1) div k - 1"
    using assms int_div_pos_eq [of a k "(a + 1) div k - 1" "k - 1"] by simp
  with True show ?thesis by simp
next
  case False
  have r: "0 \<le> (a + 1) mod k" "(a + 1) mod k < k" using assms by simp_all
  have e: "k * ((a + 1) div k) + (a + 1) mod k = a + 1" by (rule mult_div_mod_eq)
  then have "a = k * ((a + 1) div k) + ((a + 1) mod k - 1)" by linarith
  then have "a div k = (a + 1) div k"
    using assms r False int_div_pos_eq [of a k "(a + 1) div k" "(a + 1) mod k - 1"] by simp
  with False show ?thesis by simp
qed

lemma mod_shift: "(y - k * c) mod k = y mod (k::int)"
  by (metis mod_mult_self2 uminus_add_conv_diff add.commute mult_minus_right)

lemma year_step:
  "365 * (y + 1 - 1970) + (A + i) - (B + j) + (C + k) =
     (365 * (y - 1970) + A - B + C) + (365 + i - j + k)" for y :: int
  by simp

lemma DayFromYear_Suc: "DayFromYear (y + 1) = DayFromYear y + DaysInYear y"
proof -
  have m4: "(y - 1969 + 1) mod 4 = y mod 4"
    using mod_shift [of y 4 492] by simp
  have m100: "(y - 1901 + 1) mod 100 = y mod 100"
    using mod_shift [of y 100 19] by simp
  have m400: "(y - 1601 + 1) mod 400 = y mod 400"
    using mod_shift [of y 400 4] by simp
  have a: "(y + 1 - 1969) div 4 = (y - 1969) div 4 + (if y mod 4 = 0 then 1 else 0)"
    using div_step [of 4 "y - 1969"] by (simp only: m4) simp
  have b: "(y + 1 - 1901) div 100 = (y - 1901) div 100 + (if y mod 100 = 0 then 1 else 0)"
    using div_step [of 100 "y - 1901"] by (simp only: m100) simp
  have c: "(y + 1 - 1601) div 400 = (y - 1601) div 400 + (if y mod 400 = 0 then 1 else 0)"
    using div_step [of 400 "y - 1601"] by (simp only: m400) simp
  have "y mod 100 mod 4 = y mod 4" by (rule mod_mod_cancel) simp
  then have d: "y mod 4 \<noteq> 0 \<Longrightarrow> y mod 100 \<noteq> 0" by auto
  have "y mod 400 mod 100 = y mod 100" by (rule mod_mod_cancel) simp
  then have e: "y mod 100 \<noteq> 0 \<Longrightarrow> y mod 400 \<noteq> 0" by auto
  have "DayFromYear (y + 1) =
          DayFromYear y + (365 + (if y mod 4 = 0 then 1 else 0) - (if y mod 100 = 0 then 1 else 0)
                           + (if y mod 400 = 0 then 1 else 0))"
    by (simp only: DayFromYear_def a b c year_step)
  moreover have "365 + (if y mod 4 = 0 then 1 else 0) - (if y mod 100 = 0 then 1 else 0)
                   + (if y mod 400 = 0 then 1 else 0) = DaysInYear y"
  proof (cases "y mod 4 = 0")
    case False
    with d e show ?thesis by (simp add: DaysInYear_def)
  next
    case y4: True
    show ?thesis
    proof (cases "y mod 100 = 0")
      case False
      with y4 e show ?thesis by (simp add: DaysInYear_def)
    next
      case True
      with y4 show ?thesis by (simp add: DaysInYear_def)
    qed
  qed
  ultimately show ?thesis by (simp only:)
qed

lemma MakeDay_first: "MakeDay y m d = MakeDay y m 1 + (d - 1)"
  by (simp add: MakeDay_def Let_def)

lemma december:
  "DayFromYear ym + month_start (if DaysInYear ym = 366 then 1 else 0) 11 + DaysInMonth ym 11 =
     DayFromYear (ym + 1) + month_start l 0"
proof -
  have "DaysInYear ym = 366 \<or> DaysInYear ym = 365"
    by (simp add: DaysInYear_def)
  then show ?thesis
    by (auto simp: DayFromYear_Suc DaysInMonth_def month_start_def)
qed

lemma MakeDay_rollover:
  "MakeDay y m (DaysInMonth (y + m div 12) (m mod 12) + e) = MakeDay y (m + 1) e"
proof -
  define q where "q = m div 12"
  define r where "r = m mod 12"
  have ds: "(m + 1) div 12 = q + (if (m + 1) mod 12 = 0 then 1 else 0)"
    unfolding q_def by (rule div_step) simp
  have ms: "(m + 1) mod 12 = (r + 1) mod 12"
    unfolding r_def by (simp add: mod_add_left_eq)
  have b: "0 \<le> r" "r < 12" by (simp_all add: r_def)
  show ?thesis
  proof (cases "r = 11")
    case True
    with ms have m0: "(m + 1) mod 12 = 0" by simp
    with ds have d: "(m + 1) div 12 = q + 1" by simp
    have "MakeDay y m (DaysInMonth (y + q) r + e) =
            DayFromYear (y + q) + month_start (if DaysInYear (y + q) = 366 then 1 else 0) 11
              + DaysInMonth (y + q) 11 + e - 1"
      by (simp add: MakeDay_def Let_def flip: q_def r_def) (simp add: True)
    also have "\<dots> = DayFromYear (y + q + 1)
                      + month_start (if DaysInYear (y + q + 1) = 366 then 1 else 0) 0 + e - 1"
      using december [of "y + q" "if DaysInYear (y + q + 1) = 366 then 1 else 0"] by linarith
    also have "\<dots> = MakeDay y (m + 1) e"
      by (simp add: MakeDay_def Let_def d m0 add.assoc)
    finally show ?thesis by (simp only: q_def r_def)
  next
    case False
    with b have "r + 1 < 12" by simp
    with b have "(r + 1) mod 12 = r + 1" by simp
    with ms have m1: "(m + 1) mod 12 = r + 1" by simp
    with b have "(m + 1) mod 12 \<noteq> 0" by simp
    with ds have d: "(m + 1) div 12 = q" by simp
    have "MakeDay y m (DaysInMonth (y + q) r + e) =
            DayFromYear (y + q) + month_start (if DaysInYear (y + q) = 366 then 1 else 0) (r + 1) + e - 1"
      by (simp add: MakeDay_def Let_def DaysInMonth_def flip: q_def r_def)
    also have "\<dots> = MakeDay y (m + 1) e"
      by (simp add: MakeDay_def Let_def d m1)
    finally show ?thesis by (simp only: q_def r_def)
  qed
qed

lemma setMonth_clamped:
  assumes "DateFromTime (localTime P now)
             \<le> DaysInMonth (YearFromTime (localTime P now) + (getMonth P now - n) div 12)
                             ((getMonth P now - n) mod 12)"
  shows "setMonth P now (getMonth P now - n) = clamped_cutoff P now n"
  using assms
  by (simp add: setMonth_def clamped_cutoff_def getMonth_def Let_def MakeDay_def min_def)

section \<open>Properties of init\<close>

lemma load_files_all:
  "load_files fetch [Labs, Vitals, Activity, Sleep] ds =
     (data_after fetch ds,
      fetch Labs \<noteq> None \<and> fetch Vitals \<noteq> None \<and> fetch Activity \<noteq> None \<and> fetch Sleep \<noteq> None)"
  by (simp add: data_after_def assign_partition_def split: option.splits)

lemma data_after_fetched:
  "fetch Labs \<noteq> None \<Longrightarrow> fetch Vitals \<noteq> None \<Longrightarrow> fetch Activity \<noteq> None \<Longrightarrow> fetch Sleep \<noteq> None
     \<Longrightarrow> data_after fetch ds = fetched fetch"
  by (auto simp: data_after_def fetched_def)

section \<open>Properties of indexMetrics\<close>

lemma foldE_append:
  "foldE f s (xs @ ys) = (case foldE f s xs of Inl e \<Rightarrow> Inl e | Inr s' \<Rightarrow> foldE f s' ys)"
  by (induction xs arbitrary: s) (auto split: sum.splits)

lemma foldE_map: "foldE f s (map g xs) = foldE (\<lambda>s a. f s (g a)) s xs"
  by (induction xs arbitrary: s) (auto split: sum.splits)

lemma foldE_tagged:
  "foldE (index_step P) st (map (Pair src) es) = foldE (index_entry P src) st es"
  by (simp add: foldE_map index_step_def)

lemma index_flat:
  "foldE (index_dataset P) st (data_values ds) = foldE (index_step P) st (tagged_records ds)"
  by (simp add: data_values_def tagged_records_def foldE_append foldE_tagged index_dataset_def
      split: sum.splits)

lemma index_step_Inr:
  assumes "index_step P st sd = Inr st'"
  shows "st' = (if metric_key P (snd sd) \<noteq> [] \<and> metric_key P (snd sd) \<notin> set (fst st)
                then (fst st @ [metric_key P (snd sd)],
                      map_set (metric_key P (snd sd)) (descriptor_of P (fst sd) (snd sd)) (snd st))
                else st)"
  using assms
  by (auto simp: index_step_def index_entry_def metric_key_def descriptor_of_def Let_def
      split: jsval.splits if_splits)

lemma index_step_result:
  assumes "index_step P st sd = Inr st'" and "index_inv st"
  shows "st' = (if metric_key P (snd sd) \<noteq> [] \<and> metric_key P (snd sd) \<notin> set (fst st)
                then (fst st @ [metric_key P (snd sd)],
                      snd st @ [(metric_key P (snd sd), descriptor_of P (fst sd) (snd sd))])
                else st)"
proof (cases "metric_key P (snd sd) \<noteq> [] \<and> metric_key P (snd sd) \<notin> set (fst st)")
  case True
  with assms(2) have "metric_key P (snd sd) \<notin> set (map fst (snd st))"
    by (simp add: index_inv_def)
  then have "map_set (metric_key P (snd sd)) (descriptor_of P (fst sd) (snd sd)) (snd st)
               = snd st @ [(metric_key P (snd sd), descriptor_of P (fst sd) (snd sd))]"
    by (rule map_set_fresh)
  with index_step_Inr [OF assms(1)] True show ?thesis by simp
next
  case False
  with index_step_Inr [OF assms(1)] show ?thesis by auto
qed

lemma index_step_inv:
  assumes "index_step P st sd = Inr st'" and "index_inv st"
  shows "index_inv st'"
  using index_step_result [OF assms] assms(2)
  by (auto simp: index_inv_def split: if_splits)

lemma find_Cons_other: "\<not> p x \<Longrightarrow> find p (x # xs) = find p xs"
  by simp

lemma index_fold:
  assumes "foldE (index_step P) st xs = Inr st'" and "index_inv st"
  shows "index_inv st'
       \<and> set (fst st') = set (fst st) \<union> (metric_key P ` snd ` set xs - {[]})
       \<and> (\<forall>e\<in>set (snd st'). e \<in> set (snd st)
             \<or> (fst e \<noteq> [] \<and> fst e \<notin> set (fst st)
                 \<and> (\<exists>sd. find (\<lambda>sd. metric_key P (snd sd) = fst e) xs = Some sd
                          \<and> snd e = descriptor_of P (fst sd) (snd sd))))"
  using assms
proof (induction xs arbitrary: st)
  case Nil
  from Nil(1) have "st' = st" by simp
  with Nil(2) show ?case by simp
next
  case (Cons sd xs)
  obtain st1 where s1: "index_step P st sd = Inr st1"
    and r: "foldE (index_step P) st1 xs = Inr st'"
  proof (cases "index_step P st sd")
    case (Inl e)
    with Cons.prems(1) show ?thesis by simp
  next
    case (Inr st1)
    with Cons.prems(1) that show ?thesis by simp
  qed
  have i1: "index_inv st1" by (rule index_step_inv [OF s1 Cons.prems(2)])
  note ih = Cons.IH [OF r i1]
  let ?k = "metric_key P (snd sd)"
  let ?d = "descriptor_of P (fst sd) (snd sd)"
  note e1 = index_step_result [OF s1 Cons.prems(2)]
  have a: "index_inv st'" using ih by (rule conjunct1)
  have ks: "set (fst st') = set (fst st1) \<union> (metric_key P ` snd ` set xs - {[]})"
    using ih by blast
  have es: "\<forall>e\<in>set (snd st'). e \<in> set (snd st1)
             \<or> (fst e \<noteq> [] \<and> fst e \<notin> set (fst st1)
                 \<and> (\<exists>sd. find (\<lambda>sd. metric_key P (snd sd) = fst e) xs = Some sd
                          \<and> snd e = descriptor_of P (fst sd) (snd sd)))"
    using ih by blast
  show ?case
  proof (cases "?k \<noteq> [] \<and> ?k \<notin> set (fst st)")
    case True
    with e1 have st1: "fst st1 = fst st @ [?k]" "snd st1 = snd st @ [(?k, ?d)]" by simp_all
    have b: "set (fst st') = set (fst st) \<union> (metric_key P ` snd ` set (sd # xs) - {[]})"
      using ks st1(1) True by auto
    have c: "\<forall>e\<in>set (snd st'). e \<in> set (snd st)
             \<or> (fst e \<noteq> [] \<and> fst e \<notin> set (fst st)
                 \<and> (\<exists>sd'. find (\<lambda>sd. metric_key P (snd sd) = fst e) (sd # xs) = Some sd'
                          \<and> snd e = descriptor_of P (fst sd') (snd sd')))"
    proof
      fix e assume "e \<in> set (snd st')"
      with es have "e \<in> set (snd st1)
             \<or> (fst e \<noteq> [] \<and> fst e \<notin> set (fst st1)
                 \<and> (\<exists>sd. find (\<lambda>sd. metric_key P (snd sd) = fst e) xs = Some sd
                          \<and> snd e = descriptor_of P (fst sd) (snd sd)))"
        by (rule bspec)
      then show "e \<in> set (snd st)
             \<or> (fst e \<noteq> [] \<and> fst e \<notin> set (fst st)
                 \<and> (\<exists>sd'. find (\<lambda>sd. metric_key P (snd sd) = fst e) (sd # xs) = Some sd'
                          \<and> snd e = descriptor_of P (fst sd') (snd sd')))"
      proof
        assume "e \<in> set (snd st1)"
        with st1(2) have "e \<in> set (snd st) \<or> e = (?k, ?d)" by auto
        then show ?thesis
        proof
          assume "e \<in> set (snd st)"
          then show ?thesis by (rule disjI1)
        next
          assume e: "e = (?k, ?d)"
          have "find (\<lambda>sd. metric_key P (snd sd) = ?k) (sd # xs) = Some sd" by simp
          with e True show ?thesis by auto
        qed
      next
        assume n: "fst e \<noteq> [] \<and> fst e \<notin> set (fst st1)
                 \<and> (\<exists>sd. find (\<lambda>sd. metric_key P (snd sd) = fst e) xs = Some sd
                          \<and> snd e = descriptor_of P (fst sd) (snd sd))"
        with st1(1) have ne: "?k \<noteq> fst e" and ns: "fst e \<notin> set (fst st)" by auto
        from ne have "find (\<lambda>sd. metric_key P (snd sd) = fst e) (sd # xs)
                        = find (\<lambda>sd. metric_key P (snd sd) = fst e) xs"
          by (rule find_Cons_other)
        with n ns show ?thesis by simp
      qed
    qed
    from a b c show ?thesis by (intro conjI)
  next
    case False
    with e1 have st1: "st1 = st" by simp
    from False have k: "?k = [] \<or> ?k \<in> set (fst st)" by blast
    have b: "set (fst st') = set (fst st) \<union> (metric_key P ` snd ` set (sd # xs) - {[]})"
      using ks st1 k by auto
    have c: "\<forall>e\<in>set (snd st'). e \<in> set (snd st)
             \<or> (fst e \<noteq> [] \<and> fst e \<notin> set (fst st)
                 \<and> (\<exists>sd'. find (\<lambda>sd. metric_key P (snd sd) = fst e) (sd # xs) = Some sd'
                          \<and> snd e = descriptor_of P (fst sd') (snd sd')))"
    proof
      fix e assume "e \<in> set (snd st')"
      with es have "e \<in> set (snd st1)
             \<or> (fst e \<noteq> [] \<and> fst e \<notin> set (fst st1)
                 \<and> (\<exists>sd. find (\<lambda>sd. metric_key P (snd sd) = fst e) xs = Some sd
                          \<and> snd e = descriptor_of P (fst sd) (snd sd)))"
        by (rule bspec)
      then show "e \<in> set (snd st)
             \<or> (fst e \<noteq> [] \<and> fst e \<notin> set (fst st)
                 \<and> (\<exists>sd'. find (\<lambda>sd. metric_key P (snd sd) = fst e) (sd # xs) = Some sd'
                          \<and> snd e = descriptor_of P (fst sd') (snd sd')))"
      proof
        assume "e \<in> set (snd st1)"
        with st1 show ?thesis by simp
      next
        assume n: "fst e \<noteq> [] \<and> fst e \<notin> set (fst st1)
                 \<and> (\<exists>sd. find (\<lambda>sd. metric_key P (snd sd) = fst e) xs = Some sd
                          \<and> snd e = descriptor_of P (fst sd) (snd sd))"
        with st1 k have ne: "?k \<noteq> fst e" and ns: "fst e \<notin> set (fst st)" by auto
        from ne have "find (\<lambda>sd. metric_key P (snd sd) = fst e) (sd # xs)
                        = find (\<lambda>sd. metric_key P (snd sd) = fst e) xs"
          by (rule find_Cons_other)
        with n ns show ?thesis by simp
      qed
    qed
    from a b c show ?thesis by (intro conjI)
  qed
qed

lemma build_index_Inr:
  assumes "build_index P ds = Inr ms"
  shows "\<exists>st. foldE (index_step P) ([], []) (tagged_records ds) = Inr st
            \<and> sort_js (label_gt P) (map snd (snd st)) = Inr ms"
proof (cases "foldE (index_step P) ([], []) (tagged_records ds)")
  case (Inl e)
  with assms show ?thesis by (simp add: build_index_def index_flat)
next
  case (Inr st)
  with assms show ?thesis by (simp add: build_index_def index_flat)
qed

lemma label_sorted:
  assumes "sort_js (label_gt P) xs = Inr ms" and "collates P (label_string P ` set ms)"
  shows "sorted_wrt (\<lambda>a b. localeCompare P (label_string P a) (label_string P b) \<le> 0) ms"
proof -
  have s: "set ms = set xs" using sort_js_mset [OF assms(1)] by (metis set_mset_mset)
  let ?L = "label_string P ` set xs"
  from assms(2) have c: "collates P ?L" by (simp only: s)
  have sym: "\<forall>x\<in>?L. \<forall>y\<in>?L. localeCompare P x y < 0 \<longleftrightarrow> localeCompare P y x > 0"
    using c unfolding collates_def by (rule conjunct1)
  have anti: "\<forall>x\<in>?L. \<forall>y\<in>?L. localeCompare P x y > 0 \<longrightarrow> localeCompare P y x \<le> 0"
  proof (intro ballI impI)
    fix x y assume "x \<in> ?L" "y \<in> ?L" "localeCompare P x y > 0"
    with sym have "localeCompare P y x < 0" by blast
    then show "localeCompare P y x \<le> 0" by simp
  qed
  have trans: "\<forall>x\<in>?L. \<forall>y\<in>?L. \<forall>z\<in>?L.
            localeCompare P x y \<le> 0 \<longrightarrow> localeCompare P y z \<le> 0 \<longrightarrow> localeCompare P x z \<le> 0"
    using c unfolding collates_def by (rule conjunct2)
  show ?thesis
  proof (rule sort_js_sorted [OF assms(1)])
    show "\<forall>a\<in>set xs. \<forall>b\<in>set xs.
            (label_gt P a b = Inr True \<longrightarrow> localeCompare P (label_string P b) (label_string P a) \<le> 0)
          \<and> (label_gt P a b = Inr False \<longrightarrow> localeCompare P (label_string P a) (label_string P b) \<le> 0)"
    proof (intro ballI conjI impI)
      fix a b assume a: "a \<in> set xs" and b: "b \<in> set xs" and g: "label_gt P a b = Inr True"
      from g have "localeCompare P (label_string P a) (label_string P b) > 0"
        by (auto simp: label_gt_def label_string_def split: jsval.splits)
      moreover from a b have "label_string P a \<in> ?L" "label_string P b \<in> ?L" by simp_all
      ultimately show "localeCompare P (label_string P b) (label_string P a) \<le> 0"
        using anti by blast
    next
      fix a b assume "label_gt P a b = Inr False"
      then show "localeCompare P (label_string P a) (label_string P b) \<le> 0"
        by (auto simp: label_gt_def label_string_def split: jsval.splits)
    qed
    show "\<forall>a\<in>set xs. \<forall>b\<in>set xs. \<forall>c\<in>set xs.
            localeCompare P (label_string P a) (label_string P b) \<le> 0 \<longrightarrow>
            localeCompare P (label_string P b) (label_string P c) \<le> 0 \<longrightarrow>
            localeCompare P (label_string P a) (label_string P c) \<le> 0"
    proof (intro ballI impI)
      fix a b c
      assume "a \<in> set xs" "b \<in> set xs" "c \<in> set xs"
      then have "label_string P a \<in> ?L" "label_string P b \<in> ?L" "label_string P c \<in> ?L"
        by simp_all
      moreover assume "localeCompare P (label_string P a) (label_string P b) \<le> 0"
        "localeCompare P (label_string P b) (label_string P c) \<le> 0"
      ultimately show "localeCompare P (label_string P a) (label_string P c) \<le> 0"
        using trans by blast
    qed
  qed
qed

lemma set_tagged_records: "snd ` set (tagged_records ds) = set (all_records ds)"
  by (auto simp: tagged_records_def all_records_def image_Un image_image)

section \<open>Records with a plain value\<close>

lemma val_of_plain:
  assumes "value_plain d"
  shows "val_of d = value_of d" and "val_of d \<noteq> JUndefined \<longleftrightarrow> has_value d"
  using assms
  by (auto simp: value_plain_def val_of_def value_of_def has_value_def or_js_def)

lemma settable_plain: "value_plain d \<Longrightarrow> settable d \<longleftrightarrow> carries d"
  by (simp add: settable_def carries_def val_of_plain(2))

lemma keyed_series_iff:
  "(k, v) \<in> set (keyed_series P ds n) \<longleftrightarrow>
     (filter (\<lambda>d. settable d \<and> timeStr_of d = k) (matching_entries P ds n) \<noteq> []
      \<and> v = parseFloat P (val_of (last (filter (\<lambda>d. settable d \<and> timeStr_of d = k)
                                                 (matching_entries P ds n))))
      \<and> v \<noteq> NaN)"
proof -
  let ?es = "matching_entries P ds n"
  have "(k, v) \<in> set (uniqueByTime P ?es) \<longleftrightarrow> map_of (uniqueByTime P ?es) k = Some v"
    by (simp add: distinct_uniqueByTime)
  then show ?thesis
    by (auto simp: keyed_series_def map_of_uniqueByTime Let_def)
qed

lemma last_value_plain:
  assumes "list_all value_plain (matching_entries P ds n)"
  shows "last_value P ds n k =
           (let ks = filter (\<lambda>d. settable d \<and> timeStr_of d = k) (matching_entries P ds n)
            in if ks = [] then None else Some (parseFloat P (val_of (last ks))))"
proof -
  let ?es = "matching_entries P ds n"
  let ?ks = "filter (\<lambda>d. settable d \<and> timeStr_of d = k) ?es"
  have f: "filter (\<lambda>d. carries d \<and> timeStr_of d = k) ?es = ?ks"
    using assms by (intro filter_cong) (auto simp: list_all_iff settable_plain)
  have "val_of (last ?ks) = value_of (last ?ks)" if "?ks \<noteq> []"
  proof -
    from that have "last ?ks \<in> set ?ks" by (rule last_in_set)
    then have "last ?ks \<in> set ?es" by simp
    with assms have "value_plain (last ?ks)" by (simp add: list_all_iff)
    then show ?thesis by (rule val_of_plain(1))
  qed
  then show ?thesis by (auto simp: last_value_def f Let_def)
qed

lemma keyed_series_last_value:
  assumes "list_all value_plain (matching_entries P ds n)"
  shows "(k, v) \<in> set (keyed_series P ds n) \<longleftrightarrow> last_value P ds n k = Some v \<and> v \<noteq> NaN"
  by (auto simp: keyed_series_iff last_value_plain [OF assms] Let_def)

section \<open>Removing defective records\<close>

lemma all_records_without:
  "all_records (without_defects ds) = filter (\<lambda>d. \<not> defective d) (all_records ds)"
  by (simp add: all_records_def without_defects_def)

lemma matching_truthy:
  "matching P n d \<Longrightarrow> truthy (or_js (get_prop d ''metric'') (get_prop d ''Metric''))"
  by (auto simp: matching_def metric_matches_def Let_def split: if_splits)

lemma defective_not_settable:
  assumes "matching P n d" and "defective d"
  shows "\<not> settable d"
proof -
  from assms matching_truthy [OF assms(1)] have "\<not> truthy (timeStr_of d) \<or> \<not> has_value d"
    by (simp add: defective_def)
  then show ?thesis
    by (auto simp: settable_def has_value_def val_of_def or_js_def)
qed

lemma foldl_set_by_time_filter:
  "\<forall>d\<in>set es. \<not> q d \<longrightarrow> \<not> settable d \<Longrightarrow>
     foldl (set_by_time P) m (filter q es) = foldl (set_by_time P) m es"
proof (induction es arbitrary: m)
  case Nil
  then show ?case by simp
next
  case (Cons d es)
  show ?case
  proof (cases "q d")
    case True
    with Cons show ?thesis by simp
  next
    case False
    with Cons.prems have "\<not> settable d" by simp
    then have "set_by_time P m d = m" by (auto simp: set_by_time_def settable_def Let_def)
    with False Cons show ?thesis by simp
  qed
qed

lemma keyed_series_without: "keyed_series P (without_defects ds) n = keyed_series P ds n"
proof -
  have m: "matching_entries P (without_defects ds) n
             = filter (\<lambda>d. \<not> defective d) (matching_entries P ds n)"
    unfolding matching_entries_def all_records_without by (rule filter_swap)
  have "\<forall>d\<in>set (matching_entries P ds n). \<not> \<not> defective d \<longrightarrow> \<not> settable d"
    by (auto simp: matching_entries_def dest: defective_not_settable)
  then have "uniqueByTime P (filter (\<lambda>d. \<not> defective d) (matching_entries P ds n))
               = uniqueByTime P (matching_entries P ds n)"
    unfolding uniqueByTime_def by (rule foldl_set_by_time_filter)
  with m show ?thesis by (simp add: keyed_series_def)
qed

lemma getMetricData_without:
  assumes "list_all metric_ok (all_records ds)"
  shows "getMetricData P (without_defects ds) n = getMetricData P ds n"
proof -
  from assms have "list_all metric_ok (all_records (without_defects ds))"
    by (simp add: all_records_without list_all_iff)
  then show ?thesis
    by (simp add: getMetricData_ok assms keyed_series_without)
qed

section \<open>The index that indexMetrics returns\<close>

lemma indexMetrics_Inr_properties:
  assumes "indexMetrics P mgr = Inr mgr'"
    and "collates P (label_string P ` set (metrics mgr'))"
  shows "data mgr' = data mgr
       \<and> distinct (map name (metrics mgr'))
       \<and> set (map name (metrics mgr'))
           = {k. k \<noteq> [] \<and> (\<exists>d\<in>set (all_records (data mgr)). metric_key P d = k)}
       \<and> (\<forall>m\<in>set (metrics mgr').
             \<exists>sd. find (\<lambda>sd. metric_key P (snd sd) = name m) (tagged_records (data mgr)) = Some sd
                  \<and> m = descriptor_of P (fst sd) (snd sd))
       \<and> sorted_wrt (\<lambda>a b. localeCompare P (label_string P a) (label_string P b) \<le> 0)
            (metrics mgr')"
proof -
  let ?ds = "data mgr"
  let ?ms = "metrics mgr'"
  from assms(1) have bi: "build_index P ?ds = Inr ?ms" and dt: "data mgr' = data mgr"
    by (auto simp: indexMetrics_def split: sum.splits)
  from build_index_Inr [OF bi] obtain st
    where f: "foldE (index_step P) ([], []) (tagged_records ?ds) = Inr st"
      and s: "sort_js (label_gt P) (map snd (snd st)) = Inr ?ms"
    by blast
  have i0: "index_inv ([], [])" by (simp add: index_inv_def)
  note ix = index_fold [OF f i0]
  have inv: "index_inv st" using ix by (rule conjunct1)
  have keys: "set (fst st) = metric_key P ` snd ` set (tagged_records ?ds) - {[]}"
    using ix by simp
  have ents: "\<forall>e\<in>set (snd st).
                \<exists>sd. find (\<lambda>sd. metric_key P (snd sd) = fst e) (tagged_records ?ds) = Some sd
                     \<and> snd e = descriptor_of P (fst sd) (snd sd)"
    using ix by simp
  have nm: "\<forall>e\<in>set (snd st). name (snd e) = fst e"
  proof
    fix e assume "e \<in> set (snd st)"
    with ents obtain sd
      where fd: "find (\<lambda>sd. metric_key P (snd sd) = fst e) (tagged_records ?ds) = Some sd"
        and d: "snd e = descriptor_of P (fst sd) (snd sd)"
      by blast
    from fd have "metric_key P (snd sd) = fst e" by (auto simp: find_Some_iff)
    with d show "name (snd e) = fst e" by (simp add: descriptor_of_def)
  qed
  then have "map name (map snd (snd st)) = map fst (snd st)"
    by (simp add: map_eq_conv)
  with inv have names: "map name (map snd (snd st)) = fst st"
    by (simp add: index_inv_def)
  have ms: "mset ?ms = mset (map snd (snd st))" by (rule sort_js_mset [OF s])
  then have mn: "mset (map name ?ms) = mset (fst st)"
    using names by (metis mset_map)
  have a: "distinct (map name ?ms)"
    using mn inv by (metis index_inv_def mset_eq_imp_distinct_iff)
  have "set (map name ?ms) = set (fst st)" using mn by (metis set_mset_mset)
  with keys have b: "set (map name ?ms)
           = {k. k \<noteq> [] \<and> (\<exists>d\<in>set (all_records ?ds). metric_key P d = k)}"
    by (auto simp: set_tagged_records [symmetric] image_image)
  have c: "\<forall>m\<in>set ?ms.
             \<exists>sd. find (\<lambda>sd. metric_key P (snd sd) = name m) (tagged_records ?ds) = Some sd
                  \<and> m = descriptor_of P (fst sd) (snd sd)"
  proof
    fix m assume "m \<in> set ?ms"
    with ms have "m \<in> set (map snd (snd st))" by (metis set_mset_mset)
    then obtain e where e: "e \<in> set (snd st)" and m: "m = snd e" by auto
    with ents nm show "\<exists>sd. find (\<lambda>sd. metric_key P (snd sd) = name m) (tagged_records ?ds) = Some sd
                  \<and> m = descriptor_of P (fst sd) (snd sd)"
      by auto
  qed
  have d: "sorted_wrt (\<lambda>a b. localeCompare P (label_string P a) (label_string P b) \<le> 0) ?ms"
    by (rule label_sorted [OF s assms(2)])
  from dt a b c d show ?thesis by (intro conjI)
qed

section \<open>When indexMetrics returns\<close>

lemma foldE_total:
  "\<forall>a\<in>set xs. \<forall>s. \<exists>s'. f s a = Inr s' \<Longrightarrow> \<exists>s'. foldE f s xs = Inr s'"
proof (induction xs arbitrary: s)
  case Nil
  then show ?case by simp
next
  case (Cons a xs)
  from Cons.prems have "\<exists>s1. f s a = Inr s1" by simp
  then obtain s1 where s1: "f s a = Inr s1" ..
  from Cons.prems have "\<forall>a\<in>set xs. \<forall>s. \<exists>s'. f s a = Inr s'" by simp
  then have "\<exists>s'. foldE f s1 xs = Inr s'" by (rule Cons.IH)
  with s1 show ?case by simp
qed

lemma metric_ok_string:
  assumes "metric_ok d"
  shows "\<exists>s. or_js (or_js (get_prop d ''metric'') (get_prop d ''Metric'')) (JStr []) = JStr s"
proof (cases "truthy (or_js (get_prop d ''metric'') (get_prop d ''Metric''))")
  case True
  with assms obtain s where "or_js (get_prop d ''metric'') (get_prop d ''Metric'') = JStr s"
    by (cases "or_js (get_prop d ''metric'') (get_prop d ''Metric'')") (simp_all add: metric_ok_def)
  then show ?thesis by (simp add: or_js_def [of "JStr s"])
next
  case False
  then show ?thesis by (simp add: or_js_def [of _ "JStr []"])
qed

lemma index_step_total:
  assumes "metric_ok (snd sd)"
  shows "\<exists>st'. index_step P st sd = Inr st'"
proof -
  from metric_ok_string [OF assms] obtain s
    where s: "or_js (or_js (get_prop (snd sd) ''metric'') (get_prop (snd sd) ''Metric'')) (JStr []) = JStr s"
    by blast
  show ?thesis
    by (simp add: index_step_def index_entry_def Let_def s)
qed

lemma index_fold_total:
  assumes "list_all metric_ok (all_records ds)"
  shows "\<exists>st. foldE (index_step P) ([], []) (tagged_records ds) = Inr st"
proof (rule foldE_total, intro ballI allI)
  fix sd s assume "sd \<in> set (tagged_records ds)"
  then have "snd sd \<in> set (all_records ds)"
    unfolding set_tagged_records [symmetric] by (rule imageI)
  with assms have "metric_ok (snd sd)" by (simp add: list_all_iff)
  then show "\<exists>s'. index_step P s sd = Inr s'" by (rule index_step_total)
qed

lemma descriptor_label:
  assumes "toLowerCase P [] = []" and "metric_ok d" and "label_ok d" and "metric_key P d \<noteq> []"
  shows "label (descriptor_of P src d) = JStr (record_label P d)"
proof -
  let ?raw = "or_js (get_prop d ''metric'') (get_prop d ''Metric'')"
  let ?disp = "or_js (get_prop d ''source_display'') (get_prop d ''OriginalName'')"
  have raw: "\<exists>s. ?raw = JStr s"
  proof (cases "truthy ?raw")
    case True
    with assms(2) show ?thesis by (auto simp: metric_ok_def split: jsval.splits)
  next
    case False
    then have "metric_key P d = toLowerCase P []" by (simp add: metric_key_def or_js_def)
    with assms(1,4) show ?thesis by simp
  qed
  show ?thesis
  proof (cases "truthy ?disp")
    case True
    with assms(3) obtain t where "?disp = JStr t"
      by (auto simp: label_ok_def split: jsval.splits)
    with True show ?thesis
      by (simp add: descriptor_of_def record_label_def or_js_def)
  next
    case False
    from raw obtain s where "?raw = JStr s" by blast
    with False show ?thesis
      by (simp add: descriptor_of_def record_label_def or_js_def)
  qed
qed

lemma collates_subset:
  assumes "collates P L" and "L' \<subseteq> L"
  shows "collates P L'"
proof -
  have s: "\<forall>x\<in>L. \<forall>y\<in>L. localeCompare P x y < 0 \<longleftrightarrow> localeCompare P y x > 0"
    using assms(1) unfolding collates_def by (rule conjunct1)
  have t: "\<forall>x\<in>L. \<forall>y\<in>L. \<forall>z\<in>L.
            localeCompare P x y \<le> 0 \<longrightarrow> localeCompare P y z \<le> 0 \<longrightarrow> localeCompare P x z \<le> 0"
    using assms(1) unfolding collates_def by (rule conjunct2)
  have s': "\<forall>x\<in>L'. \<forall>y\<in>L'. localeCompare P x y < 0 \<longleftrightarrow> localeCompare P y x > 0"
  proof (intro ballI)
    fix x y assume "x \<in> L'" "y \<in> L'"
    with assms(2) have "x \<in> L" "y \<in> L" by (simp_all add: subsetD)
    with s show "localeCompare P x y < 0 \<longleftrightarrow> localeCompare P y x > 0" by blast
  qed
  have t': "\<forall>x\<in>L'. \<forall>y\<in>L'. \<forall>z\<in>L'.
            localeCompare P x y \<le> 0 \<longrightarrow> localeCompare P y z \<le> 0 \<longrightarrow> localeCompare P x z \<le> 0"
  proof (intro ballI)
    fix x y z assume "x \<in> L'" "y \<in> L'" "z \<in> L'"
    with assms(2) have "x \<in> L" "y \<in> L" "z \<in> L" by (simp_all add: subsetD)
    with t show "localeCompare P x y \<le> 0 \<longrightarrow> localeCompare P y z \<le> 0 \<longrightarrow> localeCompare P x z \<le> 0"
      by blast
  qed
  from s' t' show ?thesis unfolding collates_def by (rule conjI)
qed

lemma find_in_set: "find p xs = Some x \<Longrightarrow> x \<in> set xs \<and> p x"
  by (auto simp: find_Some_iff)

lemma index_labels:
  assumes "foldE (index_step P) ([], []) (tagged_records ds) = Inr st"
    and "toLowerCase P [] = []"
    and "list_all metric_ok (all_records ds)" and "list_all label_ok (all_records ds)"
  shows "\<forall>m\<in>set (map snd (snd st)). \<exists>d\<in>set (all_records ds). label m = JStr (record_label P d)"
proof
  fix m assume "m \<in> set (map snd (snd st))"
  then obtain e where e: "e \<in> set (snd st)" and m: "m = snd e" by auto
  have i0: "index_inv ([], [])" by (simp add: index_inv_def)
  from index_fold [OF assms(1) i0] e
  obtain sd where k: "fst e \<noteq> []"
    and f: "find (\<lambda>sd. metric_key P (snd sd) = fst e) (tagged_records ds) = Some sd"
    and d: "snd e = descriptor_of P (fst sd) (snd sd)"
    by auto
  from find_in_set [OF f] have sd: "sd \<in> set (tagged_records ds)" and ke: "metric_key P (snd sd) = fst e"
    by simp_all
  from sd have r: "snd sd \<in> set (all_records ds)"
    unfolding set_tagged_records [symmetric] by (rule imageI)
  with assms(3,4) have "metric_ok (snd sd)" "label_ok (snd sd)" by (simp_all add: list_all_iff)
  from descriptor_label [OF assms(2) this] ke k
  have "label (descriptor_of P (fst sd) (snd sd)) = JStr (record_label P (snd sd))" by simp
  with m d r show "\<exists>d\<in>set (all_records ds). label m = JStr (record_label P d)" by auto
qed

lemma label_sort_total:
  assumes "\<forall>m\<in>set xs. \<exists>s. label m = JStr s"
  shows "\<exists>ms. sort_js (label_gt P) xs = Inr ms"
proof (rule sort_js_total, intro ballI)
  fix a b assume "a \<in> set xs"
  with assms obtain s where "label a = JStr s" by blast
  then show "\<exists>g. label_gt P a b = Inr g" by (simp add: label_gt_def)
qed

lemma indexMetrics_total:
  assumes "toLowerCase P [] = []"
    and "list_all metric_ok (all_records (data mgr))"
    and "list_all label_ok (all_records (data mgr))"
  shows "\<exists>mgr'. indexMetrics P mgr = Inr mgr'
           \<and> label_string P ` set (metrics mgr') \<subseteq> record_label P ` set (all_records (data mgr))"
proof -
  from index_fold_total [OF assms(2)] obtain st
    where f: "foldE (index_step P) ([], []) (tagged_records (data mgr)) = Inr st"
    by blast
  note l = index_labels [OF f assms]
  then have "\<forall>m\<in>set (map snd (snd st)). \<exists>s. label m = JStr s" by blast
  from label_sort_total [OF this] obtain ms where s: "sort_js (label_gt P) (map snd (snd st)) = Inr ms"
    by blast
  have b: "build_index P (data mgr) = Inr ms"
    using f s by (simp add: build_index_def index_flat)
  then have i: "indexMetrics P mgr = Inr (mgr\<lparr>metrics := ms\<rparr>)"
    by (simp add: indexMetrics_def)
  have "set ms = set (map snd (snd st))" using sort_js_mset [OF s] by (metis set_mset_mset)
  with l have "\<forall>m\<in>set ms. \<exists>d\<in>set (all_records (data mgr)). label m = JStr (record_label P d)"
    by simp
  then have "label_string P ` set ms \<subseteq> record_label P ` set (all_records (data mgr))"
    by (auto simp: label_string_def)
  with i show ?thesis by auto
qed

section \<open>The claims\<close>

text \<open>
  Claim C1, as the code has it. For every dataset whose records have a metric field that
  is a string or falsy, and every metric name, \<open>getMetricData\<close> returns a list. Its points
  are those of a list of pairs of a raw timestamp and a value with pairwise distinct raw
  timestamps, each the timestamp of a matching record: at most one point for a raw
  timestamp. The list is non-decreasing in the parsed timestamp whenever each of its points
  has a valid date.
\<close>

theorem getMetricData_sorted_unique:
  assumes "list_all metric_ok (all_records ds)"
  shows "\<exists>pts kvs. getMetricData P ds metricName = Inr pts
           \<and> mset pts = mset (map (to_point P) kvs)
           \<and> distinct (map fst kvs)
           \<and> fst ` set kvs \<subseteq> timeStr_of ` set (matching_entries P ds metricName)
           \<and> ((\<forall>p\<in>set pts. px p \<noteq> None) \<longrightarrow> sorted_wrt x_le pts)"
proof -
  let ?kvs = "keyed_series P ds metricName"
  from getMetricData_total [OF assms] obtain pts where pts: "getMetricData P ds metricName = Inr pts"
    by blast
  from getMetricData_Inr(2) [OF pts]
  have s: "sort_js (\<lambda>a b. Inr (x_gt a b)) (map (to_point P) ?kvs) = Inr pts" .
  have "mset pts = mset (map (to_point P) ?kvs)" by (rule sort_js_mset [OF s])
  moreover have "distinct (map fst ?kvs)" by (rule keyed_series_distinct)
  moreover have "fst ` set ?kvs \<subseteq> timeStr_of ` set (matching_entries P ds metricName)"
  proof
    fix k assume "k \<in> fst ` set ?kvs"
    then obtain v where "(k, v) \<in> set ?kvs" by auto
    from keyed_series_source [OF this] show "k \<in> timeStr_of ` set (matching_entries P ds metricName)"
      by auto
  qed
  moreover have "(\<forall>p\<in>set pts. px p \<noteq> None) \<longrightarrow> sorted_wrt x_le pts"
    using x_sorted [OF s] by blast
  ultimately show ?thesis using pts by blast
qed

text \<open>
  C1 on two readings given with the later one first: the series has the reading of
  January before the reading of February.
\<close>

theorem getMetricData_sorted_unique_witness:
  "list_all metric_ok (all_records ds_two)
   \<and> getMetricData demo ds_two ''hr'' =
       Inr [Point (Some 1704067200000) (Fin 3), Point (Some 1706745600000) (Fin 1)]
   \<and> sorted_wrt x_le [Point (Some 1704067200000) (Fin 3), Point (Some 1706745600000) (Fin 1)]"
proof -
  have h: "list_all metric_ok (all_records ds_two)"
    by (simp add: ds_two_def vitals_only_def sample_def all_records_def metric_ok_def get_prop_def
        or_js_def)
  have e: "getMetricData demo ds_two ''hr'' =
             Inr [Point (Some 1704067200000) (Fin 3), Point (Some 1706745600000) (Fin 1)]"
    by code_simp
  from getMetricData_sorted_unique [OF h, of demo "''hr''"] e
  have "(\<forall>p\<in>set [Point (Some 1704067200000) (Fin 3), Point (Some 1706745600000) (Fin 1)].
           px p \<noteq> None)
        \<longrightarrow> sorted_wrt x_le [Point (Some 1704067200000) (Fin 3), Point (Some 1706745600000) (Fin 1)]"
    by auto
  then have "sorted_wrt x_le [Point (Some 1704067200000) (Fin 3), Point (Some 1706745600000) (Fin 1)]"
    by simp
  with h e show ?thesis by (intro conjI)
qed

text \<open>
  Claim C1 as stated fails: a timestamp that is not a date gives a point with an Invalid
  Date, the comparator answers \<^verbatim>\<open>NaN\<close> next to it, and the readings of February and of
  January stay in the order of the input.
\<close>

theorem getMetricData_unsorted_counterexample:
  "getMetricData demo ds_unsorted ''hr'' =
     Inr [Point (Some 1706745600000) (Fin 1), Point None (Fin 2), Point (Some 1704067200000) (Fin 3)]
   \<and> \<not> sorted_wrt x_le
         [Point (Some 1706745600000) (Fin 1), Point None (Fin 2), Point (Some 1704067200000) (Fin 3)]
   \<and> x_gt (Point (Some 1706745600000) (Fin 1)) (Point (Some 1704067200000) (Fin 3))"
  by code_simp

text \<open>
  Claim C2 at the number zero. The record matches the metric name, its timestamp is
  present and its value parses to the finite number 0, yet the series is empty:
  \<^verbatim>\<open>d.value || d.Value\<close> replaces the falsy 0 by the absent \<^verbatim>\<open>d.Value\<close>.
\<close>

theorem getMetricData_drops_zero:
  "matching demo ''hr'' (sample ''hr'' ''2024-01-01T00:00:00Z'' (JNum (Fin 0)))
   \<and> truthy (timeStr_of (sample ''hr'' ''2024-01-01T00:00:00Z'' (JNum (Fin 0))))
   \<and> parseFloat demo (get_prop (sample ''hr'' ''2024-01-01T00:00:00Z'' (JNum (Fin 0))) ''value'') = Fin 0
   \<and> getMetricData demo ds_zero ''hr'' = Inr []"
  by code_simp

text \<open>
  Claim C6, as the code has it. When \<open>getMetricData\<close> returns the series,
  \<open>getLatestValue\<close> returns \<^verbatim>\<open>null\<close> if and only if the series is empty. When the last
  point of the series has a valid date, it returns that point: the ISO string of its date,
  its value, the metric name as given and the unit; and if all points have valid dates, no
  point is later than this one. The unit is that of the first descriptor of the index whose
  lower-cased name equals the lower-cased metric name, and the empty string when there is
  none or when that unit is falsy.
\<close>

theorem getLatestValue_spec:
  assumes "getMetricData P (data mgr) metricName = Inr pts"
  shows "(getLatestValue P mgr metricName = Inr None \<longleftrightarrow> pts = [])
       \<and> (\<forall>t. pts \<noteq> [] \<and> px (last pts) = Some t \<longrightarrow>
              getLatestValue P mgr metricName =
                Inr (Some \<lparr>lv_timestamp = toISOString P t, lv_value = py (last pts),
                           lv_metric = metricName,
                           lv_unit = lookup_unit P (metrics mgr) metricName\<rparr>)
              \<and> ((\<forall>p\<in>set pts. px p \<noteq> None) \<longrightarrow> (\<forall>p\<in>set pts. x_le p (last pts))))
       \<and> lookup_unit P (metrics mgr) metricName =
           (case find (\<lambda>m. toLowerCase P (name m) = toLowerCase P metricName) (metrics mgr) of
              None \<Rightarrow> JStr []
            | Some m \<Rightarrow> if truthy (unit m) then unit m else JStr [])"
proof -
  note l = getLatestValue_Inr [OF assms]
  have a: "getLatestValue P mgr metricName = Inr None \<longleftrightarrow> pts = []"
    by (simp add: l split: option.splits)
  have b: "\<forall>t. pts \<noteq> [] \<and> px (last pts) = Some t \<longrightarrow>
              getLatestValue P mgr metricName =
                Inr (Some \<lparr>lv_timestamp = toISOString P t, lv_value = py (last pts),
                           lv_metric = metricName,
                           lv_unit = lookup_unit P (metrics mgr) metricName\<rparr>)
              \<and> ((\<forall>p\<in>set pts. px p \<noteq> None) \<longrightarrow> (\<forall>p\<in>set pts. x_le p (last pts)))"
  proof (intro allI impI conjI ballI)
    fix t assume "pts \<noteq> [] \<and> px (last pts) = Some t"
    then show "getLatestValue P mgr metricName =
                Inr (Some \<lparr>lv_timestamp = toISOString P t, lv_value = py (last pts),
                           lv_metric = metricName,
                           lv_unit = lookup_unit P (metrics mgr) metricName\<rparr>)"
      by (simp add: l)
  next
    fix t p assume t: "pts \<noteq> [] \<and> px (last pts) = Some t"
      and v: "\<forall>p\<in>set pts. px p \<noteq> None" and p: "p \<in> set pts"
    from x_sorted [OF getMetricData_Inr(2) [OF assms] v] have "sorted_wrt x_le pts" .
    from sorted_wrt_last [OF this p] t show "x_le p (last pts)"
      by (auto simp: x_le_def)
  qed
  have c: "lookup_unit P (metrics mgr) metricName =
           (case find (\<lambda>m. toLowerCase P (name m) = toLowerCase P metricName) (metrics mgr) of
              None \<Rightarrow> JStr []
            | Some m \<Rightarrow> if truthy (unit m) then unit m else JStr [])"
    by (simp add: lookup_unit_def or_js_def split: option.splits)
  from a b c show ?thesis by blast
qed

text \<open>
  C6 on the two readings of the resting heart rate, in a manager whose index is empty: the
  latest value is 62 and its unit is the empty string.
\<close>

theorem getLatestValue_spec_witness:
  "getMetricData demo (data (new_manager\<lparr>data := ds_rhr\<rparr>)) ''restingheartrate''
     = Inr [Point (Some 1704067200000) (Fin 62)]
   \<and> getLatestValue demo (new_manager\<lparr>data := ds_rhr\<rparr>) ''restingheartrate'' =
       Inr (Some \<lparr>lv_timestamp = ''2024-01-01T00:00:00.000Z'', lv_value = Fin 62,
                  lv_metric = ''restingheartrate'', lv_unit = JStr []\<rparr>)"
proof -
  have h: "getMetricData demo (data (new_manager\<lparr>data := ds_rhr\<rparr>)) ''restingheartrate''
             = Inr [Point (Some 1704067200000) (Fin 62)]"
    by code_simp
  have u: "lookup_unit demo (metrics (new_manager\<lparr>data := ds_rhr\<rparr>)) ''restingheartrate'' = JStr []"
    by (simp add: lookup_unit_def new_manager_def or_js_def)
  have i: "toISOString demo 1704067200000 = ''2024-01-01T00:00:00.000Z''"
    by code_simp
  from getLatestValue_spec [OF h] h u i show ?thesis by simp
qed

text \<open>
  Claim C6 as stated fails. A series that is not empty and ends with an Invalid Date
  makes \<open>getLatestValue\<close> raise a RangeError, from \<^verbatim>\<open>toISOString\<close>: it returns neither
  \<^verbatim>\<open>null\<close> nor a value. And with an Invalid Date in the middle of the series, the point
  returned is the reading of January although the series has one of February.
\<close>

theorem getLatestValue_garbage_counterexample:
  "getMetricData demo (data (new_manager\<lparr>data := ds_garbage\<rparr>)) ''hr'' = Inr [Point None (Fin 1)]
   \<and> getLatestValue demo (new_manager\<lparr>data := ds_garbage\<rparr>) ''hr'' = Inl RangeError
   \<and> getLatestValue demo (new_manager\<lparr>data := ds_unsorted\<rparr>) ''hr''
       = Inr (Some \<lparr>lv_timestamp = ''2024-01-01T00:00:00.000Z'', lv_value = Fin 3,
                  lv_metric = ''hr'', lv_unit = JStr []\<rparr>)"
  by code_simp

text \<open>
  Claim C5, as the code has it. For a window tag among 1M, 6M, 1Y and ALL, the filter
  returns the series unmodified for ALL, and otherwise exactly the points whose date is
  valid and not before the cutoff. The cutoff is \<^verbatim>\<open>setMonth\<close> of the current instant
  with the current month less 1, 6 or 12: the date on the calendar reached by counting
  on, from the first day of the target month, the day of the month less one, at the same
  time of day. A day of the month beyond the last day of the target month is therefore
  that many days into the following month, without clamping; the cutoff is the clamped one
  when the target month has the day.
\<close>

theorem updateChart_filter_window:
  assumes "currentTimeRange mgr \<in> {''1M'', ''6M'', ''1Y'', ''ALL''}"
  shows "(currentTimeRange mgr = ''ALL'' \<longrightarrow> updateChart_filter P mgr now now' dat = dat)
       \<and> (currentTimeRange mgr \<noteq> ''ALL'' \<longrightarrow>
            updateChart_filter P mgr now now' dat =
              filter (\<lambda>d. x_ge d (setMonth P now' (getMonth P now - window_months (currentTimeRange mgr)))) dat)
       \<and> setMonth P now' m =
            TimeClip (utcTime P (MakeDate (MakeDay (YearFromTime (localTime P now')) m 1
                                            + (DateFromTime (localTime P now') - 1))
                                          (TimeWithinDay (localTime P now'))))
       \<and> MakeDay y m (DaysInMonth (y + m div 12) (m mod 12) + e) = MakeDay y (m + 1) e
       \<and> (DateFromTime (localTime P now)
             \<le> DaysInMonth (YearFromTime (localTime P now) + (getMonth P now - n) div 12)
                             ((getMonth P now - n) mod 12) \<longrightarrow>
            setMonth P now (getMonth P now - n) = clamped_cutoff P now n)"
proof -
  have a: "currentTimeRange mgr = ''ALL'' \<longrightarrow> updateChart_filter P mgr now now' dat = dat"
    by (simp add: updateChart_filter_def)
  have b: "currentTimeRange mgr \<noteq> ''ALL'' \<longrightarrow>
            updateChart_filter P mgr now now' dat =
              filter (\<lambda>d. x_ge d (setMonth P now' (getMonth P now - window_months (currentTimeRange mgr)))) dat"
    by (simp add: updateChart_filter_def window_months_def Let_def)
  have c: "setMonth P now' m =
            TimeClip (utcTime P (MakeDate (MakeDay (YearFromTime (localTime P now')) m 1
                                            + (DateFromTime (localTime P now') - 1))
                                          (TimeWithinDay (localTime P now'))))"
    using MakeDay_first [of "YearFromTime (localTime P now')" m "DateFromTime (localTime P now')"]
    by (simp add: setMonth_def Let_def)
  from a b c MakeDay_rollover [of y m e] setMonth_clamped [of P now n] show ?thesis by blast
qed

text \<open>
  C5 at the middle of March 2024 with the window 6M: the cutoff is 2023-09-15T12:00:00Z,
  the points of January and March remain, and no clamping is involved.
\<close>

theorem updateChart_filter_window_witness:
  "currentTimeRange (new_manager\<lparr>currentTimeRange := ''6M''\<rparr>) \<in> {''1M'', ''6M'', ''1Y'', ''ALL''}
   \<and> updateChart_filter demo (new_manager\<lparr>currentTimeRange := ''6M''\<rparr>) mid_march mid_march window_points
       = filter (\<lambda>d. x_ge d (Some 1694779200000)) window_points
   \<and> updateChart_filter demo (new_manager\<lparr>currentTimeRange := ''6M''\<rparr>) mid_march mid_march window_points
       = [Point (Some 1705276800000) (Fin 3), Point (Some 1710028800000) (Fin 4)]
   \<and> setMonth demo mid_march (getMonth demo mid_march - 6) = clamped_cutoff demo mid_march 6"
proof -
  have h: "currentTimeRange (new_manager\<lparr>currentTimeRange := ''6M''\<rparr>) \<in> {''1M'', ''6M'', ''1Y'', ''ALL''}"
    by simp
  have n: "currentTimeRange (new_manager\<lparr>currentTimeRange := ''6M''\<rparr>) \<noteq> ''ALL''"
    by simp
  have w: "window_months (currentTimeRange (new_manager\<lparr>currentTimeRange := ''6M''\<rparr>)) = 6"
    by (simp add: window_months_def)
  have s: "setMonth demo mid_march (getMonth demo mid_march - 6) = Some 1694779200000"
    by code_simp
  have d: "DateFromTime (localTime demo mid_march)
             \<le> DaysInMonth (YearFromTime (localTime demo mid_march) + (getMonth demo mid_march - 6) div 12)
                             ((getMonth demo mid_march - 6) mod 12)"
    by code_simp
  have f: "filter (\<lambda>d. x_ge d (Some 1694779200000)) window_points
             = [Point (Some 1705276800000) (Fin 3), Point (Some 1710028800000) (Fin 4)]"
    by code_simp
  from updateChart_filter_window [OF h, of demo mid_march mid_march window_points _ _ _ 6] n w s d f h
  show ?thesis by simp
qed

text \<open>
  Claim C5 as stated fails. On 2024-03-31 at noon the window 1M has its cutoff on
  2024-03-02 at noon, since February 2024 has no 31st day, and not on 2024-02-29: a point
  on 2024-03-01 is dropped, which the clamped cutoff keeps.
\<close>

theorem updateChart_filter_rollover_counterexample:
  "setMonth demo end_of_march (getMonth demo end_of_march - 1) = Some 1709380800000
   \<and> clamped_cutoff demo end_of_march 1 = Some 1709208000000
   \<and> updateChart_filter demo (new_manager\<lparr>currentTimeRange := ''1M''\<rparr>) end_of_march end_of_march
        [first_of_march] = []
   \<and> window_filter_clamped demo ''1M'' end_of_march [first_of_march] = [first_of_march]"
  by code_simp

text \<open>
  Claim C10. A tag that is none of ALL, 1M and 6M is filtered like 1Y: the result is the
  points not before the current instant with its month set twelve months back, not the
  full series.
\<close>

theorem updateChart_filter_other_tag:
  assumes "currentTimeRange mgr \<noteq> ''ALL''" and "currentTimeRange mgr \<noteq> ''1M''"
    and "currentTimeRange mgr \<noteq> ''6M''"
  shows "updateChart_filter P mgr now now' dat =
           filter (\<lambda>d. x_ge d (setMonth P now' (getMonth P now - 12))) dat
       \<and> updateChart_filter P mgr now now' dat =
           updateChart_filter P (mgr\<lparr>currentTimeRange := ''1Y''\<rparr>) now now' dat"
  using assms by (simp add: updateChart_filter_def Let_def)

text \<open>
  C10 on the tag 2W: the point of February 2023 is dropped, so the result is not the full
  series.
\<close>

theorem updateChart_filter_other_tag_witness:
  "currentTimeRange (new_manager\<lparr>currentTimeRange := ''2W''\<rparr>) \<noteq> ''ALL''
   \<and> currentTimeRange (new_manager\<lparr>currentTimeRange := ''2W''\<rparr>) \<noteq> ''1M''
   \<and> currentTimeRange (new_manager\<lparr>currentTimeRange := ''2W''\<rparr>) \<noteq> ''6M''
   \<and> updateChart_filter demo (new_manager\<lparr>currentTimeRange := ''2W''\<rparr>) mid_march mid_march window_points
       = [Point (Some 1692057600000) (Fin 2), Point (Some 1705276800000) (Fin 3),
          Point (Some 1710028800000) (Fin 4)]
   \<and> updateChart_filter demo (new_manager\<lparr>currentTimeRange := ''2W''\<rparr>) mid_march mid_march window_points
       \<noteq> window_points"
proof -
  have h: "currentTimeRange (new_manager\<lparr>currentTimeRange := ''2W''\<rparr>) \<noteq> ''ALL''"
      "currentTimeRange (new_manager\<lparr>currentTimeRange := ''2W''\<rparr>) \<noteq> ''1M''"
      "currentTimeRange (new_manager\<lparr>currentTimeRange := ''2W''\<rparr>) \<noteq> ''6M''"
    by simp_all
  have f: "filter (\<lambda>d. x_ge d (setMonth demo mid_march (getMonth demo mid_march - 12))) window_points
             = [Point (Some 1692057600000) (Fin 2), Point (Some 1705276800000) (Fin 3),
                Point (Some 1710028800000) (Fin 4)]"
    by code_simp
  have g: "[Point (Some 1692057600000) (Fin 2), Point (Some 1705276800000) (Fin 3),
            Point (Some 1710028800000) (Fin 4)] \<noteq> window_points"
    by (simp add: window_points_def)
  from updateChart_filter_other_tag [OF h, of demo mid_march mid_march window_points] h f g
  show ?thesis by simp
qed

text \<open>
  Claim C8, as the code has it. \<open>init\<close> returns true exactly when the four files load
  and parse and the index is built; the metric index of the manager is then that index, and
  is left as it was when \<open>init\<close> returns false. The data of the manager is, in every
  case, what the loop has assigned: the files that loaded before the first one that failed
  have replaced their partitions.
\<close>

theorem init_outcome:
  "fst (init P fetch mgr) =
     (fetch Labs \<noteq> None \<and> fetch Vitals \<noteq> None \<and> fetch Activity \<noteq> None \<and> fetch Sleep \<noteq> None
      \<and> (\<exists>ms. build_index P (fetched fetch) = Inr ms))
   \<and> data (snd (init P fetch mgr)) = data_after fetch (data mgr)
   \<and> metrics (snd (init P fetch mgr)) =
       (if fst (init P fetch mgr)
        then (case build_index P (fetched fetch) of Inr ms \<Rightarrow> ms | Inl e \<Rightarrow> metrics mgr)
        else metrics mgr)
   \<and> currentMetric (snd (init P fetch mgr)) = currentMetric mgr
   \<and> currentTimeRange (snd (init P fetch mgr)) = currentTimeRange mgr"
proof (cases "fetch Labs \<noteq> None \<and> fetch Vitals \<noteq> None \<and> fetch Activity \<noteq> None \<and> fetch Sleep \<noteq> None")
  case True
  then have d: "data_after fetch (data mgr) = fetched fetch"
    by (simp add: data_after_fetched)
  show ?thesis
    using True
    by (cases "build_index P (fetched fetch)")
       (simp_all add: init_def load_files_all d indexMetrics_def del: load_files.simps)
next
  case False
  then show ?thesis
    by (auto simp: init_def load_files_all simp del: load_files.simps)
qed

text \<open>C8 on four files that load: \<open>init\<close> returns true, with the data and its index.\<close>

theorem init_outcome_witness:
  "init demo fetch_all new_manager =
     (True, new_manager\<lparr>data := ds_index,
              metrics := [\<lparr>name = ''hba1c'', label = JStr ''Hemoglobin A1c'', unit = JStr ''%'',
                            source = Vitals\<rparr>,
                          \<lparr>name = ''restingheartrate'', label = JStr ''Resting HR'',
                            unit = JStr ''bpm'', source = Labs\<rparr>]\<rparr>)"
proof -
  have f: "fetched fetch_all = ds_index"
    by (simp add: fetched_def fetch_all_def ds_index_def)
  have a: "data_after fetch_all (data new_manager) = ds_index"
    by (simp add: data_after_def fetch_all_def ds_index_def new_manager_def)
  have b: "build_index demo ds_index =
             Inr [\<lparr>name = ''hba1c'', label = JStr ''Hemoglobin A1c'', unit = JStr ''%'',
                    source = Vitals\<rparr>,
                  \<lparr>name = ''restingheartrate'', label = JStr ''Resting HR'',
                    unit = JStr ''bpm'', source = Labs\<rparr>]"
    by code_simp
  have n: "fetch_all Labs \<noteq> None \<and> fetch_all Vitals \<noteq> None \<and> fetch_all Activity \<noteq> None
           \<and> fetch_all Sleep \<noteq> None"
    by (simp add: fetch_all_def)
  from init_outcome [of demo fetch_all new_manager] f a b n
  have "fst (init demo fetch_all new_manager)"
    and "data (snd (init demo fetch_all new_manager)) = ds_index"
    and "metrics (snd (init demo fetch_all new_manager)) =
           [\<lparr>name = ''hba1c'', label = JStr ''Hemoglobin A1c'', unit = JStr ''%'', source = Vitals\<rparr>,
            \<lparr>name = ''restingheartrate'', label = JStr ''Resting HR'', unit = JStr ''bpm'',
              source = Labs\<rparr>]"
    and "currentMetric (snd (init demo fetch_all new_manager)) = currentMetric new_manager"
    and "currentTimeRange (snd (init demo fetch_all new_manager)) = currentTimeRange new_manager"
    by simp_all
  then show ?thesis
    by (cases "init demo fetch_all new_manager") (auto simp: manager.equality)
qed

text \<open>
  Claim C8 as stated fails. When the third file fails to load, \<open>init\<close> returns false,
  and the manager holds the first two files: its data is not as if no load had happened.
\<close>

theorem init_partial_counterexample:
  "init demo fetch_failing new_manager =
     (False, new_manager\<lparr>data := \<lparr>labs = labs ds_index, vitals = vitals ds_index,
                                    activity = [], sleep = []\<rparr>\<rparr>)
   \<and> data (snd (init demo fetch_failing new_manager)) \<noteq> data new_manager"
  by (simp add: init_def fetch_failing_def assign_partition_def new_manager_def ds_index_def)

text \<open>
  Claim C3, as the code has it. Let the metric field of every record be a string or
  falsy and let no matching record have a falsy field \<^verbatim>\<open>value\<close> (for the number zero
  see C2). Take the matching records that carry the raw timestamp \<open>k\<close> and a value, in
  the order of iteration over partitions and records; let there be at least one. Then the
  points of the series are, one for one, those of a list of pairs of a raw timestamp and a
  number with distinct timestamps; the pairs are exactly the raw timestamps carried by a
  matching record with a value, each with the parsed value of the last such record, where
  that is not \<^verbatim>\<open>NaN\<close>; and \<open>k\<close> has exactly one pair, with the value of the last of its
  records, unless that value parses to \<^verbatim>\<open>NaN\<close>: then \<open>k\<close> has no pair at all.
\<close>

theorem getMetricData_last_wins:
  assumes "list_all metric_ok (all_records ds)"
    and "list_all value_plain (matching_entries P ds metricName)"
    and "ks = filter (\<lambda>d. carries d \<and> timeStr_of d = k) (matching_entries P ds metricName)"
    and "ks \<noteq> []"
  shows "\<exists>pts kvs. getMetricData P ds metricName = Inr pts
           \<and> mset pts = mset (map (to_point P) kvs)
           \<and> distinct (map fst kvs)
           \<and> (\<forall>k' v. (k', v) \<in> set kvs \<longleftrightarrow> last_value P ds metricName k' = Some v \<and> v \<noteq> NaN)
           \<and> filter (\<lambda>e. fst e = k) kvs =
               (if parseFloat P (value_of (last ks)) = NaN then []
                else [(k, parseFloat P (value_of (last ks)))])"
proof -
  let ?kvs = "keyed_series P ds metricName"
  let ?v = "parseFloat P (value_of (last ks))"
  from getMetricData_total [OF assms(1)] obtain pts where pts: "getMetricData P ds metricName = Inr pts"
    by blast
  have m: "mset pts = mset (map (to_point P) ?kvs)"
    by (rule sort_js_mset [OF getMetricData_Inr(2) [OF pts] ])
  have d: "distinct (map fst ?kvs)" by (rule keyed_series_distinct)
  have c: "\<forall>k' v. (k', v) \<in> set ?kvs \<longleftrightarrow> last_value P ds metricName k' = Some v \<and> v \<noteq> NaN"
    using keyed_series_last_value [OF assms(2)] by blast
  have lv: "last_value P ds metricName k = Some ?v"
    using assms(3,4) by (simp add: last_value_def Let_def)
  have "map_of ?kvs k = (if ?v = NaN then None else Some ?v)"
  proof (cases "?v = NaN")
    case True
    have "k \<notin> fst ` set ?kvs"
    proof
      assume "k \<in> fst ` set ?kvs"
      then obtain v where "(k, v) \<in> set ?kvs" by auto
      with c lv True show False by auto
    qed
    then have "map_of ?kvs k = None" by (simp add: map_of_eq_None_iff)
    with True show ?thesis by simp
  next
    case False
    with c lv have "(k, ?v) \<in> set ?kvs" by blast
    with d have "map_of ?kvs k = Some ?v" by simp
    with False show ?thesis by simp
  qed
  then have f: "filter (\<lambda>e. fst e = k) ?kvs = (if ?v = NaN then [] else [(k, ?v)])"
    by (simp add: filter_key_distinct [OF d])
  from pts m d c f show ?thesis by blast
qed

text \<open>
  The scenario of C3: two readings of 60 and then 62 at the same instant, under two
  casings of the metric name, give exactly one point, with value 62.
\<close>

theorem getMetricData_last_wins_witness:
  "list_all metric_ok (all_records ds_rhr)
   \<and> list_all value_plain (matching_entries demo ds_rhr ''restingheartrate'')
   \<and> getMetricData demo ds_rhr ''restingheartrate'' = Inr [Point (Some 1704067200000) (Fin 62)]
   \<and> (\<exists>kvs. mset [Point (Some 1704067200000) (Fin 62)] = mset (map (to_point demo) kvs)
            \<and> distinct (map fst kvs)
            \<and> filter (\<lambda>e. fst e = JStr ''2024-01-01T00:00:00Z'') kvs
                = [(JStr ''2024-01-01T00:00:00Z'', Fin 62)])"
proof -
  have h1: "list_all metric_ok (all_records ds_rhr)"
    by code_simp
  have h2: "list_all value_plain (matching_entries demo ds_rhr ''restingheartrate'')"
    by code_simp
  have h3: "[sample ''RestingHeartRate'' ''2024-01-01T00:00:00Z'' (JNum (Fin 60)),
             sample ''restingheartrate'' ''2024-01-01T00:00:00Z'' (JNum (Fin 62))]
            = filter (\<lambda>d. carries d \<and> timeStr_of d = JStr ''2024-01-01T00:00:00Z'')
                (matching_entries demo ds_rhr ''restingheartrate'')"
    by code_simp
  have h4: "[sample ''RestingHeartRate'' ''2024-01-01T00:00:00Z'' (JNum (Fin 60)),
             sample ''restingheartrate'' ''2024-01-01T00:00:00Z'' (JNum (Fin 62))] \<noteq> []"
    by simp
  have v: "parseFloat demo (value_of (last
             [sample ''RestingHeartRate'' ''2024-01-01T00:00:00Z'' (JNum (Fin 60)),
              sample ''restingheartrate'' ''2024-01-01T00:00:00Z'' (JNum (Fin 62))])) = Fin 62"
    by code_simp
  have e: "getMetricData demo ds_rhr ''restingheartrate'' = Inr [Point (Some 1704067200000) (Fin 62)]"
    by code_simp
  from getMetricData_last_wins [OF h1 h2 h3 h4] obtain pts kvs
    where p: "getMetricData demo ds_rhr ''restingheartrate'' = Inr pts"
      and m: "mset pts = mset (map (to_point demo) kvs)"
      and d: "distinct (map fst kvs)"
      and f: "filter (\<lambda>e. fst e = JStr ''2024-01-01T00:00:00Z'') kvs =
                (if parseFloat demo (value_of (last
                      [sample ''RestingHeartRate'' ''2024-01-01T00:00:00Z'' (JNum (Fin 60)),
                       sample ''restingheartrate'' ''2024-01-01T00:00:00Z'' (JNum (Fin 62))])) = NaN
                 then []
                 else [(JStr ''2024-01-01T00:00:00Z'',
                        parseFloat demo (value_of (last
                          [sample ''RestingHeartRate'' ''2024-01-01T00:00:00Z'' (JNum (Fin 60)),
                           sample ''restingheartrate'' ''2024-01-01T00:00:00Z'' (JNum (Fin 62))])))])"
    by blast
  from p e have "pts = [Point (Some 1704067200000) (Fin 62)]" by simp
  with m have m': "mset [Point (Some 1704067200000) (Fin 62)] = mset (map (to_point demo) kvs)"
    by simp
  from f have f': "filter (\<lambda>e. fst e = JStr ''2024-01-01T00:00:00Z'') kvs
                     = [(JStr ''2024-01-01T00:00:00Z'', Fin 62)]"
    by (simp only: v) simp
  from m' d f' have "\<exists>kvs. mset [Point (Some 1704067200000) (Fin 62)] = mset (map (to_point demo) kvs)
            \<and> distinct (map fst kvs)
            \<and> filter (\<lambda>e. fst e = JStr ''2024-01-01T00:00:00Z'') kvs
                = [(JStr ''2024-01-01T00:00:00Z'', Fin 62)]"
    by blast
  with h1 h2 e show ?thesis by (intro conjI)
qed

text \<open>
  Claim C3 as stated fails: two matching records carry the same timestamp, neither with a
  falsy value, and the later value is not a number; it overwrites the earlier 60 and is
  then dropped, so the series keeps no point for that timestamp.
\<close>

theorem getMetricData_overwritten_counterexample:
  "matching_entries demo ds_overwritten ''hr'' =
     [sample ''hr'' ''2024-01-01T00:00:00Z'' (JNum (Fin 60)),
      sample ''hr'' ''2024-01-01T00:00:00Z'' (JStr ''n/a'')]
   \<and> list_all value_plain (matching_entries demo ds_overwritten ''hr'')
   \<and> getMetricData demo ds_overwritten ''hr'' = Inr []"
  by code_simp

text \<open>
  Claim C7, as the code has it. Let the metric field of every record be a string or
  falsy and let no matching record have a falsy field \<^verbatim>\<open>value\<close> (for the number zero
  see C2). Then the query returns a list; it returns the same list on the dataset without
  the records that lack a metric name, a timestamp or a value; and its points are exactly
  these: for each raw timestamp carried by a matching record with a value, the point with
  \<^verbatim>\<open>new Date\<close> of that timestamp, a date or not, and the parsed value of the last such
  record, where this value is not \<^verbatim>\<open>NaN\<close>.
\<close>

theorem getMetricData_points_of_records:
  assumes "list_all metric_ok (all_records ds)"
    and "list_all value_plain (matching_entries P ds metricName)"
  shows "\<exists>pts. getMetricData P ds metricName = Inr pts
           \<and> getMetricData P (without_defects ds) metricName = Inr pts
           \<and> (\<forall>p. p \<in> set pts \<longleftrightarrow>
                  (\<exists>k v. last_value P ds metricName k = Some v \<and> v \<noteq> NaN
                         \<and> p = Point (newDate P k) v))"
proof -
  from getMetricData_total [OF assms(1)] obtain pts where pts: "getMetricData P ds metricName = Inr pts"
    by blast
  have w: "getMetricData P (without_defects ds) metricName = Inr pts"
    using getMetricData_without [OF assms(1)] pts by simp
  have "set pts = set (map (to_point P) (keyed_series P ds metricName))"
    using sort_js_mset [OF getMetricData_Inr(2) [OF pts] ] by (metis set_mset_mset)
  then have s: "set pts = to_point P ` set (keyed_series P ds metricName)" by simp
  have "\<forall>p. p \<in> set pts \<longleftrightarrow>
          (\<exists>k v. last_value P ds metricName k = Some v \<and> v \<noteq> NaN \<and> p = Point (newDate P k) v)"
  proof (intro allI iffI)
    fix p assume "p \<in> set pts"
    with s obtain k v where kv: "(k, v) \<in> set (keyed_series P ds metricName)"
      and p: "p = to_point P (k, v)"
      by auto
    from kv keyed_series_last_value [OF assms(2)]
    have "last_value P ds metricName k = Some v \<and> v \<noteq> NaN" by blast
    with p show "\<exists>k v. last_value P ds metricName k = Some v \<and> v \<noteq> NaN \<and> p = Point (newDate P k) v"
      by (auto simp: to_point_def)
  next
    fix p assume "\<exists>k v. last_value P ds metricName k = Some v \<and> v \<noteq> NaN \<and> p = Point (newDate P k) v"
    then obtain k v where l: "last_value P ds metricName k = Some v \<and> v \<noteq> NaN"
      and p: "p = Point (newDate P k) v"
      by blast
    from l keyed_series_last_value [OF assms(2)]
    have "(k, v) \<in> set (keyed_series P ds metricName)" by blast
    then have "to_point P (k, v) \<in> set pts" unfolding s by (rule imageI)
    with p show "p \<in> set pts" by (simp add: to_point_def)
  qed
  with pts w show ?thesis by blast
qed

text \<open>
  C7 on a dataset with a record without a metric name, one without a timestamp, one
  without a value, one whose value is not a number and a reading whose timestamp is not a
  date: the series is that reading alone, with and without the defective records.
\<close>

theorem getMetricData_points_of_records_witness:
  "list_all metric_ok (all_records ds_defects)
   \<and> list_all value_plain (matching_entries demo ds_defects ''hr'')
   \<and> getMetricData demo ds_defects ''hr'' = Inr [Point None (Fin 1)]
   \<and> getMetricData demo (without_defects ds_defects) ''hr'' = Inr [Point None (Fin 1)]
   \<and> last_value demo ds_defects ''hr'' (JStr ''garbage'') = Some (Fin 1)"
proof -
  have h1: "list_all metric_ok (all_records ds_defects)"
    by code_simp
  have h2: "list_all value_plain (matching_entries demo ds_defects ''hr'')"
    by code_simp
  have e: "getMetricData demo ds_defects ''hr'' = Inr [Point None (Fin 1)]"
    by code_simp
  have l: "last_value demo ds_defects ''hr'' (JStr ''garbage'') = Some (Fin 1)"
    by code_simp
  from getMetricData_points_of_records [OF h1 h2] e
  have "getMetricData demo (without_defects ds_defects) ''hr'' = Inr [Point None (Fin 1)]"
    by auto
  with h1 h2 e l show ?thesis by (intro conjI)
qed

text \<open>
  Claim C7 as stated fails: a record whose timestamp does not parse as a date is not
  excluded; its point is in the series, with an Invalid Date. Nor is a record whose value
  is not finite: the string Infinity parses to a number that is not \<^verbatim>\<open>NaN\<close>.
\<close>

theorem getMetricData_garbage_counterexample:
  "demo_dateParse ''garbage'' = None
   \<and> getMetricData demo ds_garbage ''hr'' = Inr [Point None (Fin 1)]
   \<and> getMetricData demo ds_infinite ''hr'' = Inr [Point (Some 1704067200000) PInf]"
  by code_simp

text \<open>
  Claim C9, as the code has it, on records whose fields hold JSON primitives or are
  missing. When the metric field of every record is a string or falsy, \<open>getMetricData\<close>
  returns a list, and \<open>getLatestValue\<close> returns \<^verbatim>\<open>null\<close> on the empty series, returns a
  value when the last point of the series has a valid date, and raises a RangeError when
  that date is invalid. When the metric field of some record is truthy and not a string,
  both operations raise a TypeError.
\<close>

theorem queries_return:
  "(list_all metric_ok (all_records (data mgr)) \<longrightarrow>
      (\<exists>pts. getMetricData P (data mgr) metricName = Inr pts
           \<and> (if pts = [] then getLatestValue P mgr metricName = Inr None
               else case px (last pts) of
                      None \<Rightarrow> getLatestValue P mgr metricName = Inl RangeError
                    | Some t \<Rightarrow> \<exists>v. getLatestValue P mgr metricName = Inr (Some v))))
   \<and> (\<not> list_all metric_ok (all_records (data mgr)) \<longrightarrow>
        getMetricData P (data mgr) metricName = Inl TypeError
        \<and> getLatestValue P mgr metricName = Inl TypeError)"
proof (intro conjI impI)
  assume "list_all metric_ok (all_records (data mgr))"
  from getMetricData_total [OF this] obtain pts where pts: "getMetricData P (data mgr) metricName = Inr pts"
    by blast
  from getLatestValue_Inr [OF pts] pts
  show "\<exists>pts. getMetricData P (data mgr) metricName = Inr pts
           \<and> (if pts = [] then getLatestValue P mgr metricName = Inr None
               else case px (last pts) of
                      None \<Rightarrow> getLatestValue P mgr metricName = Inl RangeError
                    | Some t \<Rightarrow> \<exists>v. getLatestValue P mgr metricName = Inr (Some v))"
    by (auto split: option.splits)
next
  assume n: "\<not> list_all metric_ok (all_records (data mgr))"
  from getMetricData_raises [OF n]
  show "getMetricData P (data mgr) metricName = Inl TypeError" .
  then show "getLatestValue P mgr metricName = Inl TypeError"
    by (simp add: getLatestValue_def)
qed

text \<open>
  C9 on the two readings of the resting heart rate, where both operations return, and on
  the record whose metric field is a number, where both raise.
\<close>

theorem queries_return_witness:
  "list_all metric_ok (all_records (data (new_manager\<lparr>data := ds_rhr\<rparr>)))
   \<and> getMetricData demo (data (new_manager\<lparr>data := ds_rhr\<rparr>)) ''restingheartrate''
       = Inr [Point (Some 1704067200000) (Fin 62)]
   \<and> (\<exists>v. getLatestValue demo (new_manager\<lparr>data := ds_rhr\<rparr>) ''restingheartrate'' = Inr (Some v))
   \<and> \<not> list_all metric_ok (all_records (data (new_manager\<lparr>data := ds_nonstring\<rparr>)))
   \<and> getMetricData demo (data (new_manager\<lparr>data := ds_nonstring\<rparr>)) ''hr'' = Inl TypeError
   \<and> getLatestValue demo (new_manager\<lparr>data := ds_nonstring\<rparr>) ''hr'' = Inl TypeError"
proof -
  have h1: "list_all metric_ok (all_records (data (new_manager\<lparr>data := ds_rhr\<rparr>)))"
    by code_simp
  have h2: "\<not> list_all metric_ok (all_records (data (new_manager\<lparr>data := ds_nonstring\<rparr>)))"
    by code_simp
  have e: "getMetricData demo (data (new_manager\<lparr>data := ds_rhr\<rparr>)) ''restingheartrate''
             = Inr [Point (Some 1704067200000) (Fin 62)]"
    by code_simp
  from queries_return [of "new_manager\<lparr>data := ds_rhr\<rparr>" demo "''restingheartrate''"] h1 e
  have a: "\<exists>v. getLatestValue demo (new_manager\<lparr>data := ds_rhr\<rparr>) ''restingheartrate'' = Inr (Some v)"
    by auto
  from queries_return [of "new_manager\<lparr>data := ds_nonstring\<rparr>" demo "''hr''"] h2
  have b: "getMetricData demo (data (new_manager\<lparr>data := ds_nonstring\<rparr>)) ''hr'' = Inl TypeError"
    and c: "getLatestValue demo (new_manager\<lparr>data := ds_nonstring\<rparr>) ''hr'' = Inl TypeError"
    by blast+
  from h1 h2 e a b c show ?thesis by (intro conjI)
qed

text \<open>
  Claim C9 as stated fails. A metric field that is a number has no method
  \<^verbatim>\<open>toLowerCase\<close>: both operations raise a TypeError. A timestamp that is not a date
  makes \<open>getLatestValue\<close> raise a RangeError.
\<close>

theorem queries_raise_counterexample:
  "getMetricData demo ds_nonstring ''hr'' = Inl TypeError
   \<and> getLatestValue demo (new_manager\<lparr>data := ds_nonstring\<rparr>) ''hr'' = Inl TypeError
   \<and> getLatestValue demo (new_manager\<lparr>data := ds_garbage\<rparr>) ''hr'' = Inl RangeError"
  by code_simp

text \<open>
  Claim C4, as the code has it. Let the platform lower-case the empty string to itself
  and let its comparison be a consistent ordering of the labels of the records; let every
  record have a metric field that is a string or falsy and a display label that is a
  string or falsy. Then \<open>indexMetrics\<close> builds the index and leaves the data untouched; no
  two descriptors of the index have the same name; the names are exactly the non-empty
  lower-cased metric names of the records; each descriptor is the one given by the first
  record with its name, in the order of iteration over partitions and records, with the tag
  of the partition of that record; and the index is sorted ascending by label under the
  comparison of the platform.
\<close>

theorem indexMetrics_first_wins:
  assumes "toLowerCase P [] = []"
    and "list_all metric_ok (all_records (data mgr))"
    and "list_all label_ok (all_records (data mgr))"
    and "collates P (record_label P ` set (all_records (data mgr)))"
  shows "\<exists>mgr'. indexMetrics P mgr = Inr mgr'
       \<and> data mgr' = data mgr
       \<and> distinct (map name (metrics mgr'))
       \<and> set (map name (metrics mgr'))
           = {k. k \<noteq> [] \<and> (\<exists>d\<in>set (all_records (data mgr)). metric_key P d = k)}
       \<and> (\<forall>m\<in>set (metrics mgr').
             \<exists>sd. find (\<lambda>sd. metric_key P (snd sd) = name m) (tagged_records (data mgr)) = Some sd
                  \<and> m = descriptor_of P (fst sd) (snd sd))
       \<and> sorted_wrt (\<lambda>a b. localeCompare P (label_string P a) (label_string P b) \<le> 0)
            (metrics mgr')"
proof -
  from indexMetrics_total [OF assms(1-3)] obtain mgr'
    where i: "indexMetrics P mgr = Inr mgr'"
      and l: "label_string P ` set (metrics mgr') \<subseteq> record_label P ` set (all_records (data mgr))"
    by blast
  have c: "collates P (label_string P ` set (metrics mgr'))"
    by (rule collates_subset [OF assms(4) l])
  from indexMetrics_Inr_properties [OF i c] i show ?thesis by blast
qed

text \<open>
  C4 on a dataset with the resting heart rate in the labs, and HbA1c in the vitals and,
  under another casing, in the sleep data: two descriptors, each from the first record of
  its metric, ordered by label.
\<close>

theorem indexMetrics_first_wins_witness:
  "toLowerCase demo [] = []
   \<and> list_all metric_ok (all_records (data (new_manager\<lparr>data := ds_catalog\<rparr>)))
   \<and> list_all label_ok (all_records (data (new_manager\<lparr>data := ds_catalog\<rparr>)))
   \<and> collates demo (record_label demo ` set (all_records (data (new_manager\<lparr>data := ds_catalog\<rparr>))))
   \<and> indexMetrics demo (new_manager\<lparr>data := ds_catalog\<rparr>) =
       Inr (new_manager\<lparr>data := ds_catalog,
              metrics := [\<lparr>name = ''hba1c'', label = JStr ''Hemoglobin A1c'', unit = JStr ''%'',
                            source = Vitals\<rparr>,
                          \<lparr>name = ''restingheartrate'', label = JStr ''Resting HR'',
                            unit = JStr ''bpm'', source = Labs\<rparr>]\<rparr>)
   \<and> sorted_wrt (\<lambda>a b. localeCompare demo (label_string demo a) (label_string demo b) \<le> 0)
        [\<lparr>name = ''hba1c'', label = JStr ''Hemoglobin A1c'', unit = JStr ''%'', source = Vitals\<rparr>,
         \<lparr>name = ''restingheartrate'', label = JStr ''Resting HR'', unit = JStr ''bpm'',
           source = Labs\<rparr>]"
proof -
  let ?mgr = "new_manager\<lparr>data := ds_catalog\<rparr>"
  let ?ms = "[\<lparr>name = ''hba1c'', label = JStr ''Hemoglobin A1c'', unit = JStr ''%'', source = Vitals\<rparr>,
              \<lparr>name = ''restingheartrate'', label = JStr ''Resting HR'', unit = JStr ''bpm'',
                source = Labs\<rparr>]"
  have h1: "toLowerCase demo [] = []"
    by (simp add: demo_def demo_toLowerCase_def)
  have h2: "list_all metric_ok (all_records (data ?mgr))"
    by code_simp
  have h3: "list_all label_ok (all_records (data ?mgr))"
    by code_simp
  have l: "record_label demo ` set (all_records (data ?mgr))
             = {''Resting HR'', ''Hemoglobin A1c'', ''HBA1C''}"
    by (simp add: all_records_def ds_catalog_def record_label_def get_prop_def or_js_def)
  have c: "localeCompare demo ''Resting HR'' ''Resting HR'' = 0"
      "localeCompare demo ''Resting HR'' ''Hemoglobin A1c'' = 1"
      "localeCompare demo ''Resting HR'' ''HBA1C'' = 1"
      "localeCompare demo ''Hemoglobin A1c'' ''Resting HR'' = - 1"
      "localeCompare demo ''Hemoglobin A1c'' ''Hemoglobin A1c'' = 0"
      "localeCompare demo ''Hemoglobin A1c'' ''HBA1C'' = 1"
      "localeCompare demo ''HBA1C'' ''Resting HR'' = - 1"
      "localeCompare demo ''HBA1C'' ''Hemoglobin A1c'' = - 1"
      "localeCompare demo ''HBA1C'' ''HBA1C'' = 0"
    by code_simp+
  have h4: "collates demo (record_label demo ` set (all_records (data ?mgr)))"
    unfolding l collates_def by (simp add: c)
  have b: "build_index demo ds_catalog = Inr ?ms"
    by code_simp
  then have e: "indexMetrics demo ?mgr = Inr (?mgr\<lparr>metrics := ?ms\<rparr>)"
    by (simp add: indexMetrics_def)
  from indexMetrics_first_wins [OF h1 h2 h3 h4] e
  have s: "sorted_wrt (\<lambda>a b. localeCompare demo (label_string demo a) (label_string demo b) \<le> 0) ?ms"
    by auto
  from h1 h2 h3 h4 e s show ?thesis by simp
qed

text \<open>
  Claim C4 as stated fails: on a record whose metric field is a number,
  \<^verbatim>\<open>(rawMetric || '').toLowerCase()\<close> raises a TypeError and no index is built.
\<close>

theorem indexMetrics_raises_counterexample:
  "indexMetrics demo (new_manager\<lparr>data := ds_nonstring\<rparr>) = Inl TypeError"
  by code_simp

end
